theory Spec2Isabelle
  imports Complex_Main
begin

section \<open>Numbers\<close>

text \<open>
  Every quantity in \<^verbatim>\<open>Pool.ts\<close> has the TypeScript type \<^verbatim>\<open>number\<close>: a 64-bit binary
  floating-point number. A number is modelled as a real, or one of the three special
  values \<open>NaN\<close>, \<open>+Infinity\<close> and \<open>-Infinity\<close>. Each arithmetic operation computes the
  exact real result and rounds it to the nearest number of the format, ties to the even
  significand, as the format prescribes.

  The two zeros of the format are one value here. They compare equal, and the functions
  of \<^verbatim>\<open>Pool.ts\<close> divide by a zero only when the dividend is zero or \<open>NaN\<close>, or when the
  zero is the sum of a number and its opposite, which is \<open>+0\<close>.
\<close>

datatype number = Fin real | PInf | NInf | NaN

text \<open>The infinity with the sign of a non-zero real.\<close>

definition inf_of :: "real \<Rightarrow> number" where
  "inf_of s = (if 0 < s then PInf else NInf)"

subsection \<open>Rounding to the format\<close>

text \<open>
  \<open>search k lo x\<close> is a binary search, over the \<open>2 ^ (k + 1) - 1\<close> exponents above
  \<open>lo\<close>, for the greatest exponent \<open>e\<close> with \<open>2 powi e \<le> x\<close>; it is \<open>lo\<close> when there is
  none. \<open>expo x\<close> searches the exponents from \<open>-1074\<close> to \<open>3020\<close>, which cover the format
  and every value that overflows it less than \<open>2 powi 3021\<close>: for a positive \<open>x\<close> of that
  range, \<open>2 powi expo x \<le> x < 2 powi (expo x + 1)\<close>.
\<close>

fun search :: "nat \<Rightarrow> int \<Rightarrow> real \<Rightarrow> int" where
  "search 0 lo x = (if 2 powi (lo + 1) \<le> x then lo + 1 else lo)"
| "search (Suc k) lo x =
     search k (if 2 powi (lo + 2 ^ Suc k) \<le> x then lo + 2 ^ Suc k else lo) x"

definition expo :: "real \<Rightarrow> int" where
  "expo x = search 11 (- 1075) x"

text \<open>
  The distance between neighbouring numbers of the format around \<open>x\<close>: the significand
  has 53 bits, and below \<open>2 powi (- 1022)\<close> the numbers are evenly spaced (subnormal).
\<close>

definition ulp :: "real \<Rightarrow> real" where
  "ulp x = 2 powi (max (expo \<bar>x\<bar>) (- 1022) - 52)"

text \<open>The nearest integer, a tie going to the even one.\<close>

definition rne :: "real \<Rightarrow> int" where
  "rne t =
     (let n = \<lfloor>t\<rfloor>; r = t - of_int n
      in if r < 1 / 2 then n else if 1 / 2 < r then n + 1
         else if even n then n else n + 1)"

text \<open>
  The nearest number of the format, before overflow is looked at: the magnitude is
  rounded to a multiple of the spacing, and the sign is kept.
\<close>

definition nearest :: "real \<Rightarrow> real" where
  "nearest x = sgn x * (of_int (rne (\<bar>x\<bar> / ulp x)) * ulp x)"

text \<open>The result of an operation whose exact value is \<open>x\<close>: an infinity on overflow.\<close>

definition round_double :: "real \<Rightarrow> number" where
  "round_double x =
     (let y = nearest x
      in if 2 ^ 1024 \<le> \<bar>y\<bar> then inf_of x else Fin y)"

subsection \<open>Arithmetic\<close>

text \<open>\<^verbatim>\<open>x + y\<close>\<close>

fun add :: "number \<Rightarrow> number \<Rightarrow> number" where
  "add (Fin a) (Fin b) = round_double (a + b)"
| "add NaN _ = NaN"
| "add _ NaN = NaN"
| "add PInf NInf = NaN"
| "add NInf PInf = NaN"
| "add PInf _ = PInf"
| "add _ PInf = PInf"
| "add NInf _ = NInf"
| "add _ NInf = NInf"

text \<open>\<^verbatim>\<open>-x\<close> and \<^verbatim>\<open>x - y\<close>\<close>

fun neg :: "number \<Rightarrow> number" where
  "neg (Fin a) = Fin (- a)"
| "neg PInf = NInf"
| "neg NInf = PInf"
| "neg NaN = NaN"

definition sub :: "number \<Rightarrow> number \<Rightarrow> number" where
  "sub x y = add x (neg y)"

text \<open>\<^verbatim>\<open>x * y\<close>: an infinity times zero is \<open>NaN\<close>.\<close>

fun mul :: "number \<Rightarrow> number \<Rightarrow> number" where
  "mul (Fin a) (Fin b) = round_double (a * b)"
| "mul NaN _ = NaN"
| "mul _ NaN = NaN"
| "mul (Fin a) PInf = (if a = 0 then NaN else inf_of a)"
| "mul (Fin a) NInf = (if a = 0 then NaN else inf_of (- a))"
| "mul PInf (Fin b) = (if b = 0 then NaN else inf_of b)"
| "mul NInf (Fin b) = (if b = 0 then NaN else inf_of (- b))"
| "mul PInf PInf = PInf"
| "mul PInf NInf = NInf"
| "mul NInf PInf = NInf"
| "mul NInf NInf = PInf"

text \<open>
  \<^verbatim>\<open>x / y\<close>: zero over zero and an infinity over an infinity are \<open>NaN\<close>, a non-zero
  number over zero is an infinity, a finite number over an infinity is zero.
\<close>

fun divide_number :: "number \<Rightarrow> number \<Rightarrow> number" where
  "divide_number (Fin a) (Fin b) =
     (if b \<noteq> 0 then round_double (a / b) else if a = 0 then NaN else inf_of a)"
| "divide_number NaN _ = NaN"
| "divide_number _ NaN = NaN"
| "divide_number (Fin a) PInf = Fin 0"
| "divide_number (Fin a) NInf = Fin 0"
| "divide_number PInf (Fin b) = (if b < 0 then NInf else PInf)"
| "divide_number NInf (Fin b) = (if b < 0 then PInf else NInf)"
| "divide_number PInf PInf = NaN"
| "divide_number PInf NInf = NaN"
| "divide_number NInf PInf = NaN"
| "divide_number NInf NInf = NaN"

text \<open>
  \<^verbatim>\<open>Math.ceil\<close> and \<^verbatim>\<open>Math.floor\<close> are exact on a number of the format, and leave the
  special values as they are.
\<close>

fun Math_ceil :: "number \<Rightarrow> number" where
  "Math_ceil (Fin a) = Fin (of_int \<lceil>a\<rceil>)"
| "Math_ceil x = x"

fun Math_floor :: "number \<Rightarrow> number" where
  "Math_floor (Fin a) = Fin (of_int \<lfloor>a\<rfloor>)"
| "Math_floor x = x"

text \<open>\<^verbatim>\<open>x > y\<close>: every comparison with \<open>NaN\<close> is false.\<close>

fun gt :: "number \<Rightarrow> number \<Rightarrow> bool" where
  "gt (Fin a) (Fin b) = (b < a)"
| "gt NaN _ = False"
| "gt _ NaN = False"
| "gt PInf PInf = False"
| "gt PInf _ = True"
| "gt NInf _ = False"
| "gt (Fin a) NInf = True"
| "gt (Fin a) PInf = False"

section \<open>The pool\<close>

text \<open>
  Modelled from the spec: the classes \<^verbatim>\<open>Token\<close> and \<^verbatim>\<open>TokenAccount\<close> are imported by
  \<^verbatim>\<open>Pool.ts\<close> and are not among the sources. The spec calls the assets opaque
  identifiers used only for equality comparison, so a token is a value of a type
  parameter \<open>'tok\<close> and \<^verbatim>\<open>Token.equals\<close> is equality on it. A token account keeps the
  two fields that \<^verbatim>\<open>Pool.ts\<close> reads. A public key is a value of a type parameter
  \<open>'pk\<close>.
\<close>

record 'tok TokenAccount =
  mint :: 'tok
  balance :: number

text \<open>The type \<^verbatim>\<open>SerializablePool\<close>.\<close>

record ('sta, 'st) SerializablePool =
  address :: string
  tokenA :: 'sta
  tokenB :: 'sta
  poolToken :: 'st
  programId :: string
  nonce :: number
  feeRatio :: number

text \<open>The class \<^verbatim>\<open>Pool\<close>.\<close>

record ('pk, 'tok) Pool =
  address :: 'pk
  tokenA :: "'tok TokenAccount"
  tokenB :: "'tok TokenAccount"
  poolToken :: 'tok
  programId :: 'pk
  nonce :: number
  feeRatio :: number

text \<open>The failure of an \<^verbatim>\<open>assert\<close>, with its message.\<close>

datatype error = AssertionError string

subsection \<open>Queries\<close>

definition simpleRate :: "('pk, 'tok) Pool \<Rightarrow> number" where
  "simpleRate p =
     (if gt (balance (tokenA p)) (Fin 0)
      then divide_number (balance (tokenB p)) (balance (tokenA p))
      else Fin 0)"

definition getLiquidity :: "('pk, 'tok) Pool \<Rightarrow> number" where
  "getLiquidity p = balance (tokenA p)"

subsection \<open>The swap computation\<close>

text \<open>
  Each local constant of \<^verbatim>\<open>calculateAmountInOtherToken\<close> is a definition of its own,
  under the name it has in the source, so that the intermediate values can be named.
\<close>

definition isReverse :: "('pk, 'tok) Pool \<Rightarrow> 'tok \<Rightarrow> bool" where
  "isReverse p inputToken = (mint (tokenB p) = inputToken)"

definition fromAmountInPool :: "('pk, 'tok) Pool \<Rightarrow> 'tok \<Rightarrow> number" where
  "fromAmountInPool p inputToken =
     (if isReverse p inputToken then balance (tokenB p) else balance (tokenA p))"

definition toAmountInPool :: "('pk, 'tok) Pool \<Rightarrow> 'tok \<Rightarrow> number" where
  "toAmountInPool p inputToken =
     (if isReverse p inputToken then balance (tokenA p) else balance (tokenB p))"

definition invariant :: "('pk, 'tok) Pool \<Rightarrow> 'tok \<Rightarrow> number" where
  "invariant p inputToken =
     mul (fromAmountInPool p inputToken) (toAmountInPool p inputToken)"

definition newFromAmountInPool :: "('pk, 'tok) Pool \<Rightarrow> 'tok \<Rightarrow> number \<Rightarrow> number" where
  "newFromAmountInPool p inputToken inputAmount =
     add (fromAmountInPool p inputToken) inputAmount"

definition newToAmountInPool :: "('pk, 'tok) Pool \<Rightarrow> 'tok \<Rightarrow> number \<Rightarrow> number" where
  "newToAmountInPool p inputToken inputAmount =
     divide_number (invariant p inputToken) (newFromAmountInPool p inputToken inputAmount)"

definition grossToAmount :: "('pk, 'tok) Pool \<Rightarrow> 'tok \<Rightarrow> number \<Rightarrow> number" where
  "grossToAmount p inputToken inputAmount =
     Math_ceil (sub (toAmountInPool p inputToken) (newToAmountInPool p inputToken inputAmount))"

definition fees :: "('pk, 'tok) Pool \<Rightarrow> 'tok \<Rightarrow> number \<Rightarrow> number" where
  "fees p inputToken inputAmount =
     Math_floor (mul (grossToAmount p inputToken inputAmount) (feeRatio p))"

definition calculateAmountInOtherToken ::
  "('pk, 'tok) Pool \<Rightarrow> 'tok \<Rightarrow> number \<Rightarrow> error + number" where
  "calculateAmountInOtherToken p inputToken inputAmount =
     (if inputToken = mint (tokenA p) \<or> inputToken = mint (tokenB p)
      then Inr (sub (grossToAmount p inputToken inputAmount) (fees p inputToken inputAmount))
      else Inl (AssertionError ''Input token must be either pool token A or B''))"

definition calculateTokenAAmount :: "('pk, 'tok) Pool \<Rightarrow> number \<Rightarrow> error + number" where
  "calculateTokenAAmount p tokenBAmount =
     calculateAmountInOtherToken p (mint (tokenB p)) tokenBAmount"

definition calculateTokenBAmount :: "('pk, 'tok) Pool \<Rightarrow> number \<Rightarrow> error + number" where
  "calculateTokenBAmount p tokenAAmount =
     calculateAmountInOtherToken p (mint (tokenA p)) tokenAAmount"

subsection \<open>Values of pool tokens\<close>

definition getTokenAValueOfPoolTokenAmount :: "('pk, 'tok) Pool \<Rightarrow> number \<Rightarrow> number" where
  "getTokenAValueOfPoolTokenAmount p poolTokenAmount = poolTokenAmount"

definition getTokenBValueOfPoolTokenAmount ::
  "('pk, 'tok) Pool \<Rightarrow> number \<Rightarrow> error + number" where
  "getTokenBValueOfPoolTokenAmount p poolTokenAmount =
     calculateTokenBAmount p (getTokenAValueOfPoolTokenAmount p poolTokenAmount)"

definition getPoolTokenValueOfTokenAAmount :: "('pk, 'tok) Pool \<Rightarrow> number \<Rightarrow> number" where
  "getPoolTokenValueOfTokenAAmount p tokenAAmount = tokenAAmount"

definition getPoolTokenValueOfTokenBAmount :: "('pk, 'tok) Pool \<Rightarrow> number \<Rightarrow> number" where
  "getPoolTokenValueOfTokenBAmount p tokenBAmount =
     getPoolTokenValueOfTokenAAmount p (getTokenAValueOfPoolTokenAmount p tokenBAmount)"

subsection \<open>Serialization\<close>

text \<open>
  \<^verbatim>\<open>serialize\<close> and \<^verbatim>\<open>Pool.from\<close> call the conversions of the other classes, which
  are arguments of the two functions here: \<open>toBase58\<close> and \<open>new_PublicKey\<close> for the public
  keys, and the \<^verbatim>\<open>serialize\<close> and \<^verbatim>\<open>from\<close> of the token accounts and of the tokens.
\<close>

definition serialize ::
  "('pk \<Rightarrow> string) \<Rightarrow> ('tok TokenAccount \<Rightarrow> 'sta) \<Rightarrow> ('tok \<Rightarrow> 'st) \<Rightarrow>
   ('pk, 'tok) Pool \<Rightarrow> ('sta, 'st) SerializablePool" where
  "serialize toBase58 TokenAccount_serialize Token_serialize p =
     \<lparr>SerializablePool.address = toBase58 (address p),
      SerializablePool.tokenA = TokenAccount_serialize (tokenA p),
      SerializablePool.tokenB = TokenAccount_serialize (tokenB p),
      SerializablePool.poolToken = Token_serialize (poolToken p),
      SerializablePool.programId = toBase58 (programId p),
      SerializablePool.nonce = nonce p,
      SerializablePool.feeRatio = feeRatio p\<rparr>"

definition Pool_from ::
  "(string \<Rightarrow> 'pk) \<Rightarrow> ('sta \<Rightarrow> 'tok TokenAccount) \<Rightarrow> ('st \<Rightarrow> 'tok) \<Rightarrow>
   ('sta, 'st) SerializablePool \<Rightarrow> ('pk, 'tok) Pool" where
  "Pool_from new_PublicKey TokenAccount_from Token_from serializablePool =
     \<lparr>address = new_PublicKey (SerializablePool.address serializablePool),
      tokenA = TokenAccount_from (SerializablePool.tokenA serializablePool),
      tokenB = TokenAccount_from (SerializablePool.tokenB serializablePool),
      poolToken = Token_from (SerializablePool.poolToken serializablePool),
      programId = new_PublicKey (SerializablePool.programId serializablePool),
      nonce = SerializablePool.nonce serializablePool,
      feeRatio = SerializablePool.feeRatio serializablePool\<rparr>"

subsection \<open>The conversions of the other classes\<close>

text \<open>
  \<^verbatim>\<open>PublicKey.toBase58\<close>, the constructor \<^verbatim>\<open>new PublicKey\<close>, and \<^verbatim>\<open>serialize\<close> and
  \<^verbatim>\<open>from\<close> of \<^verbatim>\<open>TokenAccount\<close> and of \<^verbatim>\<open>Token\<close> are not among the sources. The spec
  says of the address, the authority and the seed that they are opaque pass-through
  data required only to round-trip a snapshot, and of the serialization that it is a
  thin boundary adapter which must simply supply the numeric fields and the asset
  identifiers. Each conversion is modelled on those words.
\<close>

text \<open>
  Modelled from the spec: the class \<^verbatim>\<open>PublicKey\<close> with \<^verbatim>\<open>toBase58\<close>. A public key is
  opaque: it is the text that \<^verbatim>\<open>toBase58\<close> writes.
\<close>

datatype PublicKey = PublicKey (toBase58: string)

text \<open>
  Modelled from the spec: the constructor \<^verbatim>\<open>new PublicKey\<close>, which reads the text of a
  key back.
\<close>

definition new_PublicKey :: "string \<Rightarrow> PublicKey" where
  "new_PublicKey base58 = PublicKey base58"

text \<open>
  Modelled from the spec: \<^verbatim>\<open>TokenAccount.serialize\<close>. The serializable form supplies the
  asset identifier and the balance of the account as they are.
\<close>

definition TokenAccount_serialize :: "'tok TokenAccount \<Rightarrow> 'tok TokenAccount" where
  "TokenAccount_serialize tokenAccount = tokenAccount"

text \<open>Modelled from the spec: \<^verbatim>\<open>TokenAccount.from\<close>, which takes them back.\<close>

definition TokenAccount_from :: "'tok TokenAccount \<Rightarrow> 'tok TokenAccount" where
  "TokenAccount_from serializableTokenAccount = serializableTokenAccount"

text \<open>
  Modelled from the spec: \<^verbatim>\<open>Token.serialize\<close>. A token is an opaque identifier, and its
  serializable form is the identifier.
\<close>

definition Token_serialize :: "'tok \<Rightarrow> 'tok" where
  "Token_serialize token = token"

text \<open>Modelled from the spec: \<^verbatim>\<open>Token.from\<close>, which takes the identifier back.\<close>

definition Token_from :: "'tok \<Rightarrow> 'tok" where
  "Token_from serializableToken = serializableToken"

section \<open>The formula of the specification\<close>

text \<open>
  The eight steps the specification gives for the swap output, with the reserve on the
  input side, the reserve on the output side, the fee ratio and the input amount as
  arguments (\<open>product\<close> is the specification's \<open>invariant\<close>, \<open>ratio\<close> its \<open>feeRatio\<close>).

  First over the reals, as the specification words them, with an exact division.
  Step 5 divides by \<open>fromReserve + inputAmount\<close>, so the formula means something only
  when that sum is not zero.
\<close>

definition spec_grossOutput :: "real \<Rightarrow> real \<Rightarrow> real \<Rightarrow> real" where
  "spec_grossOutput fromReserve toReserve inputAmount =
     (let product = fromReserve * toReserve;
          newFromReserve = fromReserve + inputAmount;
          newToReserve = product / newFromReserve
      in of_int \<lceil>toReserve - newToReserve\<rceil>)"

definition spec_netOutput :: "real \<Rightarrow> real \<Rightarrow> real \<Rightarrow> real \<Rightarrow> real" where
  "spec_netOutput fromReserve toReserve ratio inputAmount =
     (let grossOutput = spec_grossOutput fromReserve toReserve inputAmount;
          fee = of_int \<lfloor>grossOutput * ratio\<rfloor>
      in grossOutput - fee)"

text \<open>
  Then the same eight steps in the arithmetic of \<open>number\<close>: each product, sum, quotient
  and difference is rounded to the format.
\<close>

definition spec_netOutput_rounded :: "number \<Rightarrow> number \<Rightarrow> number \<Rightarrow> number \<Rightarrow> number" where
  "spec_netOutput_rounded fromReserve toReserve ratio inputAmount =
     (let product = mul fromReserve toReserve;
          newFromReserve = add fromReserve inputAmount;
          newToReserve = divide_number product newFromReserve;
          grossOutput = Math_ceil (sub toReserve newToReserve);
          fee = Math_floor (mul grossOutput ratio)
      in sub grossOutput fee)"

section \<open>A pool to compute with\<close>

text \<open>
  A pool of the tokens \<open>''A''\<close> and \<open>''B''\<close> with the given balances and fee ratio, as
  the integration test sets one up (1000 of A, 2000 of B, fee ratio 1/4).
\<close>

definition testPool :: "real \<Rightarrow> real \<Rightarrow> real \<Rightarrow> (string, string) Pool" where
  "testPool a b f =
     \<lparr>address = ''pool'',
      tokenA = \<lparr>mint = ''A'', balance = Fin a\<rparr>,
      tokenB = \<lparr>mint = ''B'', balance = Fin b\<rparr>,
      poolToken = ''P'',
      programId = ''program'',
      nonce = Fin 255,
      feeRatio = Fin f\<rparr>"

section \<open>The exponent search\<close>

lemma search_range:
  "lo \<le> search k lo x \<and> search k lo x \<le> lo + 2 ^ Suc k - 1"
proof (induction k arbitrary: lo)
  case 0
  show ?case by simp
next
  case (Suc k)
  let ?lo' = "if 2 powi (lo + 2 ^ Suc k) \<le> x then lo + 2 ^ Suc k else lo"
  have "?lo' \<le> search k ?lo' x \<and> search k ?lo' x \<le> ?lo' + 2 ^ Suc k - 1"
    by (rule Suc.IH)
  moreover have "lo \<le> ?lo'" by simp
  moreover have "?lo' + 2 ^ Suc k \<le> lo + 2 ^ Suc (Suc k)" by simp
  ultimately show ?case by simp
qed

lemma search_lower:
  "lo < search k lo x \<Longrightarrow> 2 powi (search k lo x) \<le> x"
proof (induction k arbitrary: lo)
  case 0
  then show ?case by (simp split: if_splits)
next
  case (Suc k)
  let ?mid = "lo + 2 ^ Suc k"
  show ?case
  proof (cases "2 powi ?mid \<le> x")
    case True
    then have r: "search (Suc k) lo x = search k ?mid x" by simp
    show ?thesis
    proof (cases "?mid < search k ?mid x")
      case True
      then show ?thesis using Suc.IH [of ?mid] r by simp
    next
      case False
      then have "search k ?mid x = ?mid" using search_range [of ?mid k x] by linarith
      then show ?thesis using r \<open>2 powi ?mid \<le> x\<close> by simp
    qed
  next
    case False
    then have r: "search (Suc k) lo x = search k lo x" by simp
    then show ?thesis using Suc.IH [of lo] Suc.prems by simp
  qed
qed

lemma search_upper:
  "search k lo x < lo + 2 ^ Suc k - 1 \<Longrightarrow> x < 2 powi (search k lo x + 1)"
proof (induction k arbitrary: lo)
  case 0
  then show ?case by (simp split: if_splits)
next
  case (Suc k)
  let ?mid = "lo + 2 ^ Suc k"
  show ?case
  proof (cases "2 powi ?mid \<le> x")
    case True
    then have r: "search (Suc k) lo x = search k ?mid x" by simp
    have "search k ?mid x < ?mid + 2 ^ Suc k - 1" using Suc.prems r by simp
    then show ?thesis using Suc.IH [of ?mid] r by simp
  next
    case below: False
    then have r: "search (Suc k) lo x = search k lo x" by simp
    show ?thesis
    proof (cases "search k lo x < lo + 2 ^ Suc k - 1")
      case True
      then show ?thesis using Suc.IH [of lo] r by simp
    next
      case False
      then have "search k lo x = ?mid - 1" using search_range [of lo k x] by linarith
      then have "search (Suc k) lo x + 1 = ?mid" using r by simp
      moreover have "x < 2 powi ?mid" using below by simp
      ultimately show ?thesis by simp
    qed
  qed
qed

lemma expo_range: "- 1075 \<le> expo x \<and> expo x \<le> 3020"
  using search_range [of "- 1075" 11 x] by (simp add: expo_def)

lemma expo_lower: "- 1075 < expo x \<Longrightarrow> 2 powi (expo x) \<le> x"
  unfolding expo_def by (rule search_lower)

lemma expo_upper: "expo x < 3020 \<Longrightarrow> x < 2 powi (expo x + 1)"
  unfolding expo_def using search_upper [of 11 "- 1075" x] by simp

section \<open>Rounding to the nearest number of the format\<close>

lemma rne_err: "\<bar>of_int (rne t) - t\<bar> \<le> 1 / 2"
proof -
  have "of_int \<lfloor>t\<rfloor> \<le> t" "t < of_int \<lfloor>t\<rfloor> + 1" by linarith+
  then show ?thesis by (auto simp add: rne_def Let_def)
qed

lemma rne_of_int: "rne (of_int n) = n"
  by (simp add: rne_def)

lemma rne_0: "rne 0 = 0"
  by (simp add: rne_def)

lemma rne_mono:
  assumes "s \<le> t"
  shows "rne s \<le> rne t"
proof (rule ccontr)
  assume "\<not> rne s \<le> rne t"
  then have gap: "rne t + 1 \<le> rne s" by simp
  then have "(of_int (rne t) :: real) + 1 \<le> of_int (rne s)"
    by (metis of_int_1 of_int_add of_int_le_iff)
  moreover have "of_int (rne s) \<le> s + 1 / 2" using rne_err [of s] by linarith
  moreover have "t - 1 / 2 \<le> of_int (rne t)" using rne_err [of t] by linarith
  ultimately have "s = t" using assms by linarith
  then show False using gap by simp
qed

lemma ulp_pos: "0 < ulp x"
  by (simp add: ulp_def)

lemma ulp_minus: "ulp (- x) = ulp x"
  by (simp add: ulp_def)

lemma ulp_abs: "ulp \<bar>x\<bar> = ulp x"
  by (simp add: ulp_def)

lemma binade_lower:
  assumes "ulp x = 2 powi (e - 52)" and "e = max (expo \<bar>x\<bar>) (- 1022)" and "- 1022 < e"
  shows "2 powi e \<le> \<bar>x\<bar>"
proof -
  have "e = expo \<bar>x\<bar>" using assms(2,3) by simp
  then show ?thesis using expo_lower [of "\<bar>x\<bar>"] assms(3) by simp
qed

lemma binade_upper:
  assumes "e = max (expo \<bar>x\<bar>) (- 1022)" and "e < 3020"
  shows "\<bar>x\<bar> < 2 powi (e + 1)"
proof (cases "- 1022 \<le> expo \<bar>x\<bar>")
  case True
  then have "e = expo \<bar>x\<bar>" using assms(1) by simp
  then show ?thesis using expo_upper [of "\<bar>x\<bar>"] assms(2) by simp
next
  case False
  then have "expo \<bar>x\<bar> < 3020" and small: "expo \<bar>x\<bar> + 1 \<le> e + 1" using assms(1) by simp_all
  then have "\<bar>x\<bar> < 2 powi (expo \<bar>x\<bar> + 1)" using expo_upper by blast
  also have "\<dots> \<le> 2 powi (e + 1)" using small by (intro power_int_increasing) simp_all
  finally show ?thesis .
qed

lemma nearest_minus: "nearest (- x) = - nearest x"
  by (simp add: nearest_def ulp_minus sgn_minus)

lemma nearest_0: "nearest 0 = 0"
  by (simp add: nearest_def)

lemma nearest_pos: "0 \<le> x \<Longrightarrow> nearest x = of_int (rne (x / ulp x)) * ulp x"
  by (cases "x = 0") (simp_all add: nearest_def rne_0)

lemma nearest_nonneg:
  assumes "0 \<le> x"
  shows "0 \<le> nearest x"
proof -
  have "0 \<le> x / ulp x" using assms ulp_pos [of x] by simp
  then have "rne 0 \<le> rne (x / ulp x)" by (rule rne_mono)
  then have "0 \<le> rne (x / ulp x)" by (simp add: rne_0)
  then show ?thesis using assms ulp_pos [of x] by (simp add: nearest_pos)
qed

lemma nearest_err: "\<bar>nearest x - x\<bar> \<le> ulp x / 2"
proof -
  have pos: "\<bar>nearest x - x\<bar> \<le> ulp x / 2" if "0 \<le> x" for x
  proof -
    let ?u = "ulp x"
    have u: "0 < ?u" by (rule ulp_pos)
    have "nearest x - x = (of_int (rne (x / ?u)) - x / ?u) * ?u"
      using that u by (simp add: nearest_pos algebra_simps)
    then have "\<bar>nearest x - x\<bar> = \<bar>of_int (rne (x / ?u)) - x / ?u\<bar> * ?u"
      using u by (simp add: abs_mult)
    also have "\<dots> \<le> (1 / 2) * ?u"
      using rne_err [of "x / ?u"] u by (intro mult_right_mono) simp_all
    finally show ?thesis by simp
  qed
  show ?thesis
  proof (cases "0 \<le> x")
    case True
    then show ?thesis by (rule pos)
  next
    case False
    then have "\<bar>nearest (- x) - (- x)\<bar> \<le> ulp (- x) / 2" by (intro pos) simp
    then show ?thesis by (simp add: nearest_minus ulp_minus abs_minus_commute)
  qed
qed

text \<open>Rounding is monotone: within one binade and across binades.\<close>

lemma two53: "(2::real) ^ 53 * 2 powi (e - 52) = 2 powi (e + 1)"
proof -
  have "(2::real) powi 53 * 2 powi (e - 52) = 2 powi (53 + (e - 52))"
    by (subst power_int_add) simp_all
  then show ?thesis by (simp add: add.commute)
qed

lemma two52: "(2::real) ^ 52 * 2 powi (e - 52) = 2 powi e"
proof -
  have "(2::real) powi 52 * 2 powi (e - 52) = 2 powi (52 + (e - 52))"
    by (subst power_int_add) simp_all
  then show ?thesis by simp
qed

lemma nearest_mono_nonneg:
  assumes "0 \<le> x" and "x \<le> y"
  shows "nearest x \<le> nearest y"
proof -
  define ex where "ex = max (expo \<bar>x\<bar>) (- 1022)"
  define ey where "ey = max (expo \<bar>y\<bar>) (- 1022)"
  have ux: "ulp x = 2 powi (ex - 52)" and uy: "ulp y = 2 powi (ey - 52)"
    by (simp_all add: ulp_def ex_def ey_def)
  have y0: "0 \<le> y" using assms by simp
  have range: "- 1022 \<le> ex" "ey \<le> 3020" "ex \<le> 3020" "- 1022 \<le> ey"
    using expo_range [of "\<bar>y\<bar>"] expo_range [of "\<bar>x\<bar>"] by (simp_all add: ex_def ey_def)
  have le: "ex \<le> ey"
  proof (rule ccontr)
    assume "\<not> ex \<le> ey"
    then have less: "ey < ex" by simp
    then have "- 1022 < ex" using range by linarith
    with ux ex_def have "2 powi ex \<le> \<bar>x\<bar>" by (rule binade_lower)
    moreover have "ey < 3020" using less range by linarith
    with ey_def have "\<bar>y\<bar> < 2 powi (ey + 1)" by (rule binade_upper)
    moreover have "(2::real) powi (ey + 1) \<le> 2 powi ex"
      using less by (intro power_int_increasing) simp_all
    ultimately show False using assms by simp
  qed
  show ?thesis
  proof (cases "ex = ey")
    case True
    then have u: "ulp x = ulp y" using ux uy by simp
    have "x / ulp y \<le> y / ulp y"
      using assms(2) ulp_pos [of y] by (simp add: divide_right_mono)
    then have "rne (x / ulp y) \<le> rne (y / ulp y)" by (rule rne_mono)
    then have "(of_int (rne (x / ulp y)) :: real) * ulp y \<le> of_int (rne (y / ulp y)) * ulp y"
      using ulp_pos [of y] by (intro mult_right_mono) simp_all
    then show ?thesis using assms(1) y0 u by (simp add: nearest_pos)
  next
    case False
    then have less: "ex < ey" using le by simp
    have "ex < 3020" using less range by linarith
    with ex_def have "\<bar>x\<bar> < 2 powi (ex + 1)" by (rule binade_upper)
    then have "x \<le> 2 ^ 53 * ulp x" using assms(1) unfolding ux two53 by simp
    then have "x / ulp x \<le> 2 ^ 53" using ulp_pos [of x] by (simp add: pos_divide_le_eq)
    then have "rne (x / ulp x) \<le> rne (of_int (2 ^ 53))" by (intro rne_mono) simp
    then have "rne (x / ulp x) \<le> 2 ^ 53" unfolding rne_of_int .
    then have "(of_int (rne (x / ulp x)) :: real) \<le> of_int (2 ^ 53)" by (rule of_int_le_iff [THEN iffD2])
    then have "of_int (rne (x / ulp x)) * ulp x \<le> 2 ^ 53 * ulp x"
      using ulp_pos [of x] by (intro mult_right_mono) simp_all
    then have upper: "nearest x \<le> 2 powi (ex + 1)"
      using assms(1) unfolding ux two53 by (simp add: nearest_pos ux)
    have "- 1022 < ey" using less range by simp
    with uy ey_def have "2 powi ey \<le> \<bar>y\<bar>" by (rule binade_lower)
    then have "2 ^ 52 * ulp y \<le> y" using y0 unfolding uy two52 by simp
    then have "2 ^ 52 \<le> y / ulp y" using ulp_pos [of y] by (simp add: pos_le_divide_eq)
    then have "rne (of_int (2 ^ 52)) \<le> rne (y / ulp y)" by (intro rne_mono) simp
    then have "2 ^ 52 \<le> rne (y / ulp y)" unfolding rne_of_int .
    then have "(of_int (2 ^ 52) :: real) \<le> of_int (rne (y / ulp y))" by (rule of_int_le_iff [THEN iffD2])
    then have "2 ^ 52 * ulp y \<le> of_int (rne (y / ulp y)) * ulp y"
      using ulp_pos [of y] by (intro mult_right_mono) simp_all
    then have lower: "2 powi ey \<le> nearest y"
      using y0 unfolding uy two52 by (simp add: nearest_pos uy)
    have "(2::real) powi (ex + 1) \<le> 2 powi ey"
      using less by (intro power_int_increasing) simp_all
    then show ?thesis using upper lower by linarith
  qed
qed

lemma nearest_mono:
  assumes "x \<le> y"
  shows "nearest x \<le> nearest y"
proof (cases "0 \<le> x")
  case True
  then show ?thesis using assms by (rule nearest_mono_nonneg)
next
  case neg: False
  show ?thesis
  proof (cases "0 \<le> y")
    case True
    have "nearest (- x) \<ge> 0" using neg by (intro nearest_nonneg) simp
    then have "nearest x \<le> 0" by (simp add: nearest_minus)
    then show ?thesis using nearest_nonneg [OF True] by linarith
  next
    case False
    then have "nearest (- y) \<le> nearest (- x)"
      using assms by (intro nearest_mono_nonneg) simp_all
    then show ?thesis by (simp add: nearest_minus)
  qed
qed

text \<open>The integers below \<open>2 ^ 53\<close> are numbers of the format, and the relative error
  of rounding is at most \<open>1 / 2 ^ 53\<close> above the subnormal range.\<close>

lemma nearest_of_int_pos:
  assumes "0 < n" and "n < 2 ^ 53"
  shows "nearest (of_int n) = of_int n"
proof -
  let ?x = "of_int n :: real"
  define e where "e = max (expo \<bar>?x\<bar>) (- 1022)"
  have u: "ulp ?x = 2 powi (e - 52)" by (simp add: ulp_def e_def)
  have "e \<le> 52"
  proof (rule ccontr)
    assume "\<not> e \<le> 52"
    then have big: "53 \<le> e" by simp
    then have "- 1022 < e" by simp
    with u e_def have "2 powi e \<le> \<bar>?x\<bar>" by (rule binade_lower)
    moreover have "(2::real) powi 53 \<le> 2 powi e"
      using big by (intro power_int_increasing) simp_all
    moreover have "?x < 2 ^ 53" using assms(2) by (metis of_int_less_iff of_int_numeral of_int_power)
    ultimately show False using assms(1) by simp
  qed
  then obtain k where k: "e - 52 = - int k" by (metis add.inverse_inverse nat_0_le neg_le_0_iff_le diff_le_0_iff_le)
  have uk: "ulp ?x = 1 / 2 ^ k" unfolding u k by (simp add: power_int_minus_divide)
  have "?x / ulp ?x = of_int (n * 2 ^ k)" unfolding uk by simp
  then have "rne (?x / ulp ?x) = n * 2 ^ k" by (simp only: rne_of_int)
  then have "nearest ?x = of_int (n * 2 ^ k) * (1 / 2 ^ k)"
    using assms(1) uk by (simp add: nearest_pos)
  then show ?thesis by simp
qed

lemma nearest_of_int:
  assumes "\<bar>n\<bar> < 2 ^ 53"
  shows "nearest (of_int n) = of_int n"
proof -
  consider "n = 0" | "0 < n" | "n < 0" by linarith
  then show ?thesis
  proof cases
    case 1
    then show ?thesis by (simp add: nearest_0)
  next
    case 2
    then show ?thesis using assms by (intro nearest_of_int_pos) simp_all
  next
    case 3
    then have "nearest (of_int (- n)) = of_int (- n)"
      using assms by (intro nearest_of_int_pos) simp_all
    then show ?thesis by (simp add: nearest_minus)
  qed
qed

lemma nearest_rel_err:
  assumes "2 powi (- 1022) \<le> \<bar>x\<bar>"
  shows "\<bar>nearest x - x\<bar> \<le> \<bar>x\<bar> / 2 ^ 53"
proof -
  define e where "e = max (expo \<bar>x\<bar>) (- 1022)"
  have u: "ulp x = 2 powi (e - 52)" by (simp add: ulp_def e_def)
  have le: "2 powi e \<le> \<bar>x\<bar>"
  proof (cases "- 1022 < e")
    case True
    with u e_def show ?thesis by (rule binade_lower)
  next
    case False
    then have "e = - 1022" by (simp add: e_def)
    then show ?thesis using assms by simp
  qed
  have "2 ^ 53 * ulp x = 2 * 2 powi e"
    unfolding u two53 by (simp add: power_int_add)
  then have "ulp x / 2 = 2 powi e / 2 ^ 53" by (simp add: field_simps)
  also have "\<dots> \<le> \<bar>x\<bar> / 2 ^ 53" using le by (simp add: divide_right_mono)
  finally show ?thesis using nearest_err [of x] by linarith
qed

lemma round_double_Fin:
  assumes "\<bar>nearest x\<bar> < 2 ^ 1024"
  shows "round_double x = Fin (nearest x)"
  using assms by (simp add: round_double_def Let_def)

lemma nearest_between:
  assumes "of_int lo \<le> x" and "x \<le> of_int hi" and "\<bar>lo\<bar> < 2 ^ 53" and "\<bar>hi\<bar> < 2 ^ 53"
  shows "of_int lo \<le> nearest x" and "nearest x \<le> of_int hi"
proof -
  have "nearest (of_int lo) \<le> nearest x" using assms(1) by (rule nearest_mono)
  then show "of_int lo \<le> nearest x" using assms(3) by (simp add: nearest_of_int)
  have "nearest x \<le> nearest (of_int hi)" using assms(2) by (rule nearest_mono)
  then show "nearest x \<le> of_int hi" using assms(4) by (simp add: nearest_of_int)
qed

lemma round_double_between:
  assumes "of_int lo \<le> x" and "x \<le> of_int hi" and "\<bar>lo\<bar> < 2 ^ 53" and "\<bar>hi\<bar> < 2 ^ 53"
  shows "round_double x = Fin (nearest x)"
proof -
  have b: "of_int lo \<le> nearest x" "nearest x \<le> of_int hi"
    using assms by (rule nearest_between)+
  have "(of_int \<bar>lo\<bar> :: real) < 2 ^ 53" "(of_int \<bar>hi\<bar> :: real) < 2 ^ 53"
    using assms(3,4) by (metis of_int_less_iff of_int_numeral of_int_power)+
  then have "\<bar>nearest x\<bar> < 2 ^ 53" using b by (simp add: abs_if split: if_splits) 
  also have "(2::real) ^ 53 \<le> 2 ^ 1024" by (intro power_increasing) simp_all
  finally show ?thesis by (rule round_double_Fin)
qed

lemma round_double_of_int:
  assumes "\<bar>n\<bar> < 2 ^ 53"
  shows "round_double (of_int n) = Fin (of_int n)"
  using round_double_between [of n "of_int n" n] assms by (simp add: nearest_of_int)
lemma round_double_0: "round_double 0 = Fin 0"
  by (simp add: round_double_def nearest_0)

section \<open>Evaluating the arithmetic\<close>

lemma search_numeral:
  "search (numeral n) lo x =
     search (pred_numeral n) (if 2 powi (lo + 2 ^ numeral n) \<le> x then lo + 2 ^ numeral n else lo) x"
  by (simp add: numeral_eq_Suc)

lemmas double_eval = round_double_def nearest_def rne_def ulp_def expo_def search_numeral
  Let_def inf_of_def

lemmas all_defs = calculateAmountInOtherToken_def fees_def grossToAmount_def
  newToAmountInPool_def newFromAmountInPool_def invariant_def sub_def
  fromAmountInPool_def toAmountInPool_def isReverse_def testPool_def

section \<open>Bounds on the exact formula\<close>

lemma spec_gross_eq:
  assumes "a + x \<noteq> 0"
  shows "spec_grossOutput a b x = of_int \<lceil>b * x / (a + x)\<rceil>"
proof -
  have "b - a * b / (a + x) = b * x / (a + x)"
    using assms by (simp add: field_simps)
  then show ?thesis by (simp add: spec_grossOutput_def)
qed

lemma spec_gross_nonneg:
  assumes "0 \<le> b" "0 \<le> x" "0 < a + x"
  shows "0 \<le> spec_grossOutput a b x"
proof -
  have "0 \<le> b * x / (a + x)" using assms by simp
  then have "0 \<le> \<lceil>b * x / (a + x)\<rceil>" by linarith
  then show ?thesis using assms by (simp add: spec_gross_eq)
qed

lemma spec_gross_bounds:
  assumes "0 < a + x"
  shows "(a + x) * (b - spec_grossOutput a b x) \<le> a * b"
    and "a * b - (a + x) < (a + x) * (b - spec_grossOutput a b x)"
proof -
  let ?q = "a * b / (a + x)"
  let ?g = "spec_grossOutput a b x"
  have g: "?g = of_int \<lceil>b - ?q\<rceil>" by (simp add: spec_grossOutput_def)
  have q: "(a + x) * ?q = a * b" using assms by simp
  have "b - ?q \<le> ?g" unfolding g by linarith
  then have "b - ?g \<le> ?q" by simp
  moreover have "0 \<le> a + x" using assms by simp
  ultimately have "(a + x) * (b - ?g) \<le> (a + x) * ?q"
    by (rule mult_left_mono)
  then show "(a + x) * (b - ?g) \<le> a * b" using q by simp
  have "?g < b - ?q + 1" unfolding g by linarith
  then have "?q - 1 < b - ?g" by simp
  then have "(a + x) * (?q - 1) < (a + x) * (b - ?g)"
    using assms by (rule mult_strict_left_mono)
  then show "a * b - (a + x) < (a + x) * (b - ?g)"
    using q by (simp add: algebra_simps)
qed
lemma spec_gross_less:
  assumes "0 < a + x"
  shows "spec_grossOutput a b x < b * x / (a + x) + 1"
proof -
  have "a + x \<noteq> 0" using assms by simp
  then have "spec_grossOutput a b x = of_int \<lceil>b * x / (a + x)\<rceil>" by (rule spec_gross_eq)
  then show ?thesis by linarith
qed


lemma spec_gross_le_to:
  assumes "0 \<le> a" and "0 \<le> b" and "0 \<le> x" and "0 < a + x"
  shows "spec_grossOutput a b x \<le> of_int \<lceil>b\<rceil>"
proof -
  have ne: "a + x \<noteq> 0" using assms(4) by simp
  have "b * x \<le> b * (a + x)" using assms(1,2) by (intro mult_left_mono) simp_all
  then have "b * x / (a + x) \<le> b" using assms(4) by (simp add: pos_divide_le_eq)
  then have "\<lceil>b * x / (a + x)\<rceil> \<le> \<lceil>b\<rceil>" by (rule ceiling_mono)
  then show ?thesis using spec_gross_eq [OF ne, of b] by simp
qed

lemma spec_round_trip:
  fixes a b x n :: real
  assumes "0 < a" and "0 < b" and "0 \<le> x" and "0 \<le> n" and "n \<le> spec_grossOutput a b x"
  shows "spec_grossOutput (b - n) (a + x) n < x + (a + x) / b + 1"
proof -
  let ?g1 = "spec_grossOutput a b x"
  let ?g2 = "spec_grossOutput (b - n) (a + x) n"
  have pos: "0 < a + x" using assms by simp
  have pos2: "0 < (b - n) + n" using assms(2) by simp
  have "?g2 < (a + x) * n / ((b - n) + n) + 1" using pos2 by (rule spec_gross_less)
  then have g2_less: "?g2 < (a + x) * n / b + 1" by simp
  have g1_less: "?g1 < b * x / (a + x) + 1" using pos by (rule spec_gross_less)
  have "0 \<le> a + x" using pos by simp
  with assms(5) have "(a + x) * n \<le> (a + x) * ?g1" by (rule mult_left_mono)
  also have "\<dots> < (a + x) * (b * x / (a + x) + 1)"
    using g1_less pos by (rule mult_strict_left_mono)
  also have "\<dots> = b * x + (a + x)"
  proof -
    have "(a + x) * (b * x / (a + x)) = b * x" using pos by simp
    then show ?thesis by (simp add: distrib_left)
  qed
  finally have "(a + x) * n / b < (b * x + (a + x)) / b"
    using assms(2) by (simp add: divide_strict_right_mono)
  also have "\<dots> = x + (a + x) / b"
    using assms(2) by (simp add: add_divide_distrib)
  finally show ?thesis using g2_less by linarith
qed

section \<open>The rounded gross output on natural numbers\<close>

text \<open>
  For natural numbers \<open>A\<close>, \<open>B\<close> and \<open>N\<close> with \<open>A * B + N * B < 2 ^ 53\<close>, the product,
  the quotient \<open>A * B / N\<close> and the difference from \<open>B\<close> are rounded, and the ceiling of
  the result is still the ceiling of the exact difference: when the quotient is not an
  integer it is at least \<open>1 / N\<close> away from one, which is more than the two rounding
  errors together.
\<close>

lemma frac_gap_lower:
  fixes P N :: nat and k :: int
  assumes "0 < N" and "of_int k < real P / real N"
  shows "of_int k + 1 / real N \<le> real P / real N"
proof -
  have "of_int k * real N < real P" using assms by (simp add: pos_less_divide_eq)
  then have "of_int (k * int N) < (of_int (int P) :: real)" by simp
  then have "k * int N < int P" by (simp only: of_int_less_iff)
  then have "k * int N + 1 \<le> int P" by simp
  then have "(of_int (k * int N + 1) :: real) \<le> of_int (int P)" by (simp only: of_int_le_iff)
  then have "of_int k * real N + 1 \<le> real P" by simp
  then have "(of_int k * real N + 1) / real N \<le> real P / real N"
    by (rule divide_right_mono) simp
  moreover have "(of_int k * real N + 1) / real N = of_int k + 1 / real N"
    using assms(1) by (simp add: add_divide_distrib)
  ultimately show ?thesis by simp
qed

lemma frac_gap_upper:
  fixes P N :: nat and k :: int
  assumes "0 < N" and "real P / real N < of_int k"
  shows "real P / real N \<le> of_int k - 1 / real N"
proof -
  have "real P < of_int k * real N" using assms by (simp add: pos_divide_less_eq)
  then have "(of_int (int P) :: real) < of_int (k * int N)" by simp
  then have "int P < k * int N" by (simp only: of_int_less_iff)
  then have "int P + 1 \<le> k * int N" by simp
  then have "(of_int (int P + 1) :: real) \<le> of_int (k * int N)" by (simp only: of_int_le_iff)
  then have "real P \<le> of_int k * real N - 1" by simp
  then have "real P / real N \<le> (of_int k * real N - 1) / real N"
    by (rule divide_right_mono) simp
  moreover have "(of_int k * real N - 1) / real N = of_int k - 1 / real N"
    using assms(1) by (simp add: diff_divide_distrib)
  ultimately show ?thesis by simp
qed

lemma real_nat_less_two53:
  fixes n :: nat
  assumes "n < 2 ^ 53"
  shows "real n < 2 ^ 53" and "\<bar>int n\<bar> < 2 ^ 53"
proof -
  show "real n < 2 ^ 53" using assms by (metis of_nat_less_iff of_nat_numeral of_nat_power)
  show "\<bar>int n\<bar> < 2 ^ 53" using assms by (metis abs_of_nat of_nat_less_iff of_nat_numeral of_nat_power)
qed

lemma gross_exact:
  fixes A B N :: nat
  assumes "0 < N" and "A \<le> N" and "0 < B" and sum: "A * B + N * B < 2 ^ 53"
  defines "t \<equiv> real (A * B) / real N"
  shows "round_double t = Fin (nearest t)"
    and "round_double (real B - nearest t) = Fin (nearest (real B - nearest t))"
    and "\<lceil>nearest (real B - nearest t)\<rceil> = \<lceil>real B - t\<rceil>"
proof -
  let ?N = "N" and ?P = "A * B"
  let ?q = "nearest t"
  let ?d = "nearest (real B - ?q)"
  have P53: "?P < 2 ^ 53" and N53: "?N < 2 ^ 53" and B53: "B < 2 ^ 53"
  proof -
    show "?P < 2 ^ 53" using sum by linarith
    have "1 * B \<le> ?N * B" using assms(1) by (intro mult_le_mono1) linarith
    then have "B \<le> ?N * B" by (simp only: mult_1)
    then show "B < 2 ^ 53" using sum by linarith
    have "?N * 1 \<le> ?N * B" using assms(3) by (intro mult_le_mono2) linarith
    then have "?N \<le> ?N * B" by (simp only: mult_1_right)
    then show "?N < 2 ^ 53" using sum by linarith
  qed
  have aP: "\<bar>int ?P\<bar> < 2 ^ 53" and aB: "\<bar>int B\<bar> < 2 ^ 53" and a0: "\<bar>0::int\<bar> < 2 ^ 53"
    using real_nat_less_two53(2) [OF P53] real_nat_less_two53(2) [OF B53] by simp_all
  have Npos: "0 < real ?N" using assms(1) by simp
  have t0: "0 \<le> t" by (simp add: t_def)
  have tP: "t \<le> real ?P"
  proof -
    have "real ?P / real ?N \<le> real ?P / 1"
      using assms(1) by (intro divide_left_mono) simp_all
    then show ?thesis by (simp add: t_def)
  qed
  have tB: "t \<le> real B"
  proof -
    have "real A * real B \<le> real ?N * real B" using assms(2) by (intro mult_right_mono) simp_all
    then have "real ?P / real ?N \<le> real B" using Npos by (simp add: pos_divide_le_eq mult.commute)
    then show ?thesis by (simp add: t_def)
  qed
  have q_bounds: "0 \<le> ?q" "?q \<le> real ?P"
    using nearest_between [OF _ _ a0 aP, of t] t0 tP by simp_all
  show fin_q: "round_double t = Fin ?q"
    using round_double_between [OF _ _ a0 aP, of t] t0 tP by simp
  have lo: "of_int (int B - int ?P) \<le> real B - ?q" and hi: "real B - ?q \<le> of_int (int B)"
    using q_bounds by simp_all
  have lo53: "\<bar>int B - int ?P\<bar> < 2 ^ 53"
    using aP aB by linarith
  show "round_double (real B - ?q) = Fin ?d"
    using lo hi lo53 aB by (rule round_double_between)
  define k where "k = \<lfloor>t\<rfloor>"
  have k0: "0 \<le> k" using t0 by (simp add: k_def)
  have kt: "of_int k \<le> t" and tk: "t < of_int k + 1" unfolding k_def by linarith+
  have "(of_int k :: real) \<le> of_int (int B)" using kt tB by simp
  then have kB: "k \<le> int B" by (simp only: of_int_le_iff)
  show "\<lceil>?d\<rceil> = \<lceil>real B - t\<rceil>"
  proof (cases "of_int k = t")
    case True
    have "\<bar>k\<bar> < 2 ^ 53" using k0 kB aB by linarith
    then have q: "?q = of_int k" using True nearest_of_int [of k] by simp
    have "\<bar>int B - k\<bar> < 2 ^ 53" using k0 kB aB by linarith
    then have "nearest (of_int (int B - k)) = of_int (int B - k)" by (rule nearest_of_int)
    then have "?d = of_int (int B - k)" using q by simp
    moreover have "real B - t = of_int (int B - k)" using True by simp
    ultimately show ?thesis by simp
  next
    case False
    then have below: "of_int k < t" using kt by simp
    have gap1: "of_int k + 1 / real ?N \<le> t"
      using assms(1) below unfolding t_def by (intro frac_gap_lower) simp_all
    have "t < of_int (k + 1)" using tk by simp
    then have "t \<le> of_int (k + 1) - 1 / real ?N"
      using assms(1) unfolding t_def by (intro frac_gap_upper) simp_all
    then have gap2: "t \<le> of_int k + 1 - 1 / real ?N" by simp
    define dl where "dl = (2 ^ 53 - real ?P) / (real ?N * 2 ^ 53)"
    have dl_eq: "1 / real ?N - t / 2 ^ 53 = dl"
      using assms(1) by (simp add: t_def dl_def field_simps)
    have Preal: "real ?P + real ?N * real B < 2 ^ 53"
      using sum by (metis of_nat_add of_nat_mult real_nat_less_two53(1))
    have dl_big: "real B / 2 ^ 53 < dl"
    proof -
      have "real B * real ?N < 2 ^ 53 - real ?P" using Preal by (simp add: mult.commute)
      then have "real B < (2 ^ 53 - real ?P) / real ?N" using Npos by (simp add: pos_less_divide_eq)
      then have "real B / 2 ^ 53 < (2 ^ 53 - real ?P) / real ?N / 2 ^ 53"
        by (intro divide_strict_right_mono) simp_all
      then show ?thesis by (simp add: dl_def mult.commute)
    qed
    have "0 \<le> real B / 2 ^ 53" by simp
    then have dl0: "0 < dl" using dl_big by linarith
    have tsmall: "2 powi (- 1022) \<le> \<bar>t\<bar>"
    proof -
      have "0 \<le> (of_int k :: real)" using k0 by simp
      then have "1 / real ?N \<le> t" using gap1 by linarith
      moreover have "1 / 2 ^ 53 \<le> 1 / real ?N"
        using real_nat_less_two53(1) [OF N53] Npos by (intro divide_left_mono) simp_all
      moreover have "(2::real) powi (- 1022) \<le> 2 powi (- 53)"
        by (intro power_int_increasing) simp_all
      moreover have "(2::real) powi (- 53) = 1 / 2 ^ 53" by (simp add: power_int_minus_divide)
      ultimately show ?thesis by linarith
    qed
    have qerr: "\<bar>?q - t\<bar> \<le> t / 2 ^ 53"
      using nearest_rel_err [OF tsmall] t0 by simp
    have q_lo: "of_int k + dl \<le> ?q" using qerr gap1 dl_eq by linarith
    have q_hi: "?q \<le> of_int k + 1 - dl" using qerr gap2 dl_eq by linarith
    have "(of_int k :: real) < of_int (int B)" using below tB by simp
    then have "k < int B" by (simp only: of_int_less_iff)
    define m where "m = int B - k - 1"
    have m0: "0 \<le> m" using \<open>k < int B\<close> by (simp add: m_def)
    have mB: "m + 1 \<le> int B" using k0 by (simp add: m_def)
    let ?y = "real B - ?q"
    have y_lo: "of_int m + dl \<le> ?y" using q_hi by (simp add: m_def)
    have y_hi: "?y \<le> of_int (m + 1) - dl" using q_lo by (simp add: m_def)
    have am: "\<bar>m + 1\<bar> < 2 ^ 53" using m0 mB aB by linarith
    have y1: "?y \<le> of_int (m + 1)" using y_hi dl0 by linarith
    have "0 \<le> (of_int m :: real)" using m0 by simp
    then have y0: "of_int 0 \<le> ?y" using y_lo dl0 by simp
    have d_hi: "?d \<le> of_int (m + 1)"
      using y0 y1 a0 am by (rule nearest_between(2))
    have ysmall: "2 powi (- 1022) \<le> \<bar>?y\<bar>"
    proof -
      have "1 / real ?N / 2 ^ 53 \<le> dl"
      proof -
        have "Suc ?P \<le> 2 ^ 53" using P53 by simp
        then have "real (Suc ?P) \<le> 2 ^ 53" by (metis of_nat_le_iff of_nat_numeral of_nat_power)
        then have "real ?P + 1 \<le> 2 ^ 53" by simp
        then have "1 \<le> 2 ^ 53 - real ?P" by simp
        then have "1 / (real ?N * 2 ^ 53) \<le> (2 ^ 53 - real ?P) / (real ?N * 2 ^ 53)"
          using Npos by (intro divide_right_mono) simp_all
        then show ?thesis by (simp add: dl_def)
      qed
      moreover have "1 / 2 ^ 53 \<le> 1 / real ?N"
        using real_nat_less_two53(1) [OF N53] Npos by (intro divide_left_mono) simp_all
      then have "1 / 2 ^ 53 / 2 ^ 53 \<le> 1 / real ?N / (2 ^ 53 :: real)"
        by (intro divide_right_mono) simp_all
      moreover have "(2::real) powi (- 1022) \<le> 2 powi (- 106)"
        by (intro power_int_increasing) simp_all
      moreover have "(2::real) powi (- 106) = 1 / 2 ^ 53 / 2 ^ 53" by (simp add: power_int_minus_divide)
      moreover have "dl \<le> ?y" using y_lo \<open>0 \<le> (of_int m :: real)\<close> by linarith
      ultimately show ?thesis by linarith
    qed
    have "\<bar>?d - ?y\<bar> \<le> \<bar>?y\<bar> / 2 ^ 53" using ysmall by (rule nearest_rel_err)
    moreover have "(of_int (m + 1) :: real) \<le> of_int (int B)" using mB by (simp only: of_int_le_iff)
    then have "\<bar>?y\<bar> \<le> real B" using y1 y0 by simp
    then have "\<bar>?y\<bar> / 2 ^ 53 \<le> real B / 2 ^ 53" by (intro divide_right_mono) simp_all
    ultimately have d_lo: "of_int m < ?d" using y_lo dl_big by linarith
    have "\<lceil>?d\<rceil> = m + 1" using d_lo d_hi by (intro ceiling_unique) simp_all
    moreover have "\<lceil>real B - t\<rceil> = m + 1"
      using below tk gap2 by (intro ceiling_unique) (simp_all add: m_def)
    ultimately show ?thesis by simp
  qed
qed

section \<open>The swap computation on natural numbers\<close>

lemma forward_amounts:
  assumes "mint (tokenA p) \<noteq> mint (tokenB p)"
  shows "fromAmountInPool p (mint (tokenA p)) = balance (tokenA p)"
    and "toAmountInPool p (mint (tokenA p)) = balance (tokenB p)"
  using assms by (auto simp add: fromAmountInPool_def toAmountInPool_def isReverse_def)

lemma reverse_amounts:
  shows "fromAmountInPool p (mint (tokenB p)) = balance (tokenB p)"
    and "toAmountInPool p (mint (tokenB p)) = balance (tokenA p)"
  by (simp_all add: fromAmountInPool_def toAmountInPool_def isReverse_def)
lemmas swap_defs = grossToAmount_def newToAmountInPool_def newFromAmountInPool_def
  invariant_def sub_def

lemma round_double_nat:
  fixes n :: nat
  assumes "n < 2 ^ 53"
  shows "round_double (real n) = Fin (real n)"
  using round_double_of_int [of "int n"] real_nat_less_two53(2) [OF assms] by simp

lemma grossToAmount_exact:
  fixes A B X :: nat
  assumes fr: "fromAmountInPool p t = Fin (real A)"
    and to: "toAmountInPool p t = Fin (real B)"
    and "0 < A + X" and "0 < B" and "B * (2 * A + X) < 2 ^ 53"
  shows "grossToAmount p t (Fin (real X)) = Fin (spec_grossOutput (real A) (real B) (real X))"
proof -
  let ?N = "A + X"
  let ?t = "real (A * B) / real ?N"
  have sum: "A * B + ?N * B < 2 ^ 53" using assms(5) by (simp add: algebra_simps)
  have "A * B < 2 ^ 53" using sum by linarith
  then have inv: "round_double (real A * real B) = Fin (real (A * B))"
    using round_double_nat [of "A * B"] by simp
  have "?N * 1 \<le> ?N * B" using assms(4) by (intro mult_le_mono2) linarith
  then have "?N \<le> ?N * B" by (simp only: mult_1_right)
  then have "?N < 2 ^ 53" using sum by linarith
  then have new: "round_double (real A + real X) = Fin (real ?N)"
    using round_double_nat [of ?N] by simp
  have "0 < real ?N" using assms(3) by (simp only: of_nat_0_less_iff)
  then have ne: "real ?N \<noteq> 0" by simp
  have "A \<le> ?N" by simp
  note ge = gross_exact [OF assms(3) this assms(4) sum]
  have q: "round_double ?t = Fin (nearest ?t)" using ge(1) by simp
  have d: "round_double (real B + - nearest ?t) = Fin (nearest (real B - nearest ?t))"
    using ge(2) by simp
  have c: "\<lceil>nearest (real B - nearest ?t)\<rceil> = \<lceil>real B - ?t\<rceil>" using ge(3) by simp
  have "grossToAmount p t (Fin (real X)) = Fin (of_int \<lceil>nearest (real B - nearest ?t)\<rceil>)"
    unfolding swap_defs fr to by (simp only: mul.simps add.simps inv new divide_number.simps ne q neg.simps d Math_ceil.simps if_True simp_thms)
  also have "\<dots> = Fin (spec_grossOutput (real A) (real B) (real X))"
    unfolding c by (simp add: spec_grossOutput_def)
  finally show ?thesis .
qed

lemma fee_bounds:
  fixes g :: int
  assumes "0 \<le> g" and "g < 2 ^ 53" and "0 \<le> f" and "f \<le> 1"
  shows "round_double (of_int g * f) = Fin (nearest (of_int g * f))"
    and "0 \<le> \<lfloor>nearest (of_int g * f)\<rfloor>"
    and "\<lfloor>nearest (of_int g * f)\<rfloor> \<le> g"
proof -
  let ?x = "of_int g * f"
  have x0: "of_int 0 \<le> ?x" using assms(1,3) by simp
  have xg: "?x \<le> of_int g" using assms(1,4) by (simp add: mult_left_le)
  have a0: "\<bar>0::int\<bar> < 2 ^ 53" by simp
  have ag: "\<bar>g\<bar> < 2 ^ 53" using assms(1,2) by linarith
  show "round_double ?x = Fin (nearest ?x)" using x0 xg a0 ag by (rule round_double_between)
  have "of_int 0 \<le> nearest ?x" using x0 xg a0 ag by (rule nearest_between(1))
  then show "0 \<le> \<lfloor>nearest ?x\<rfloor>" by simp
  have "nearest ?x \<le> of_int g" using x0 xg a0 ag by (rule nearest_between(2))
  then show "\<lfloor>nearest ?x\<rfloor> \<le> g" by (simp add: floor_le_iff)
qed

lemma net_of_gross:
  fixes g :: int
  assumes gross: "grossToAmount p t x = Fin (of_int g)"
    and "feeRatio p = Fin f"
    and "0 \<le> g" and "g < 2 ^ 53" and "0 \<le> f" and "f \<le> 1"
  shows "fees p t x = Fin (of_int \<lfloor>nearest (of_int g * f)\<rfloor>)"
    and "sub (grossToAmount p t x) (fees p t x) = Fin (of_int (g - \<lfloor>nearest (of_int g * f)\<rfloor>))"
proof -
  note fb = fee_bounds [OF assms(3-6)]
  show fee: "fees p t x = Fin (of_int \<lfloor>nearest (of_int g * f)\<rfloor>)"
    unfolding fees_def gross assms(2) by (simp only: mul.simps fb(1) Math_floor.simps)
  have "\<bar>g - \<lfloor>nearest (of_int g * f)\<rfloor>\<bar> < 2 ^ 53" using fb(2,3) assms(3,4) by linarith
  then have "round_double (of_int (g - \<lfloor>nearest (of_int g * f)\<rfloor>))
      = Fin (of_int (g - \<lfloor>nearest (of_int g * f)\<rfloor>))" by (rule round_double_of_int)
  then show "sub (grossToAmount p t x) (fees p t x) = Fin (of_int (g - \<lfloor>nearest (of_int g * f)\<rfloor>))"
    unfolding fee gross sub_def by simp
qed
lemma grossToAmount_feeRatio_update:
  "grossToAmount (p\<lparr>feeRatio := r\<rparr>) t x = grossToAmount p t x"
  by (simp add: swap_defs fromAmountInPool_def toAmountInPool_def isReverse_def)

lemma calculate_rounded:
  assumes "t = mint (tokenA p) \<or> t = mint (tokenB p)"
  shows "calculateAmountInOtherToken p t x =
    Inr (spec_netOutput_rounded (fromAmountInPool p t) (toAmountInPool p t) (feeRatio p) x)"
  using assms
  by (simp add: calculateAmountInOtherToken_def fees_def swap_defs spec_netOutput_rounded_def Let_def)
lemma swap_exact:
  fixes A B X :: nat
  assumes fr: "fromAmountInPool p t = Fin (real A)"
    and to: "toAmountInPool p t = Fin (real B)"
    and fee: "feeRatio p = Fin f"
    and "0 < A + X" and "0 < B" and "B * (2 * A + X) < 2 ^ 53"
    and "0 \<le> f" and "f \<le> 1"
  defines "g \<equiv> \<lceil>real B - real A * real B / (real A + real X)\<rceil>"
  shows "grossToAmount p t (Fin (real X)) = Fin (of_int g)"
    and "spec_grossOutput (real A) (real B) (real X) = of_int g"
    and "0 \<le> g" and "g \<le> int B" and "g < 2 ^ 53"
    and "sub (grossToAmount p t (Fin (real X))) (fees p t (Fin (real X)))
           = Fin (of_int (g - \<lfloor>nearest (of_int g * f)\<rfloor>))"
    and "0 \<le> \<lfloor>nearest (of_int g * f)\<rfloor>" and "\<lfloor>nearest (of_int g * f)\<rfloor> \<le> g"
proof -
  show spec: "spec_grossOutput (real A) (real B) (real X) = of_int g"
    by (simp add: spec_grossOutput_def g_def)
  show gross: "grossToAmount p t (Fin (real X)) = Fin (of_int g)"
    using grossToAmount_exact [OF fr to assms(4,5,6)] spec by simp
  have pos: "0 < real A + real X" using assms(4) by (metis of_nat_0_less_iff of_nat_add)
  have "0 \<le> spec_grossOutput (real A) (real B) (real X)"
    using pos by (intro spec_gross_nonneg) simp_all
  then show g0: "0 \<le> g" unfolding spec by simp
  have "spec_grossOutput (real A) (real B) (real X) \<le> of_int \<lceil>real B\<rceil>"
    using pos by (intro spec_gross_le_to) simp_all
  then show gB: "g \<le> int B" unfolding spec by simp
  have "1 * B \<le> (2 * A + X) * B" using assms(4) by (intro mult_le_mono1) linarith
  then have "B \<le> B * (2 * A + X)" by (simp only: mult_1 mult.commute)
  then have "B < 2 ^ 53" using assms(6) by linarith
  then have "int B < 2 ^ 53" using real_nat_less_two53(2) [of B] by linarith
  then show g53: "g < 2 ^ 53" using gB by linarith
  show "sub (grossToAmount p t (Fin (real X))) (fees p t (Fin (real X)))
           = Fin (of_int (g - \<lfloor>nearest (of_int g * f)\<rfloor>))"
    using gross fee g0 g53 assms(7,8) by (rule net_of_gross(2))
  show "0 \<le> \<lfloor>nearest (of_int g * f)\<rfloor>" using g0 g53 assms(7,8) by (rule fee_bounds(2))
  show "\<lfloor>nearest (of_int g * f)\<rfloor> \<le> g" using g0 g53 assms(7,8) by (rule fee_bounds(3))
qed

section \<open>The gross output is a number of the format\<close>

text \<open>
  A number of the format rounds to itself, and the ceiling of a number of the format is
  one: below \<open>2 ^ 52\<close> in magnitude the ceiling is an integer below \<open>2 ^ 53\<close>, and from
  \<open>2 ^ 52\<close> on the numbers of the format are integers already. So the gross output
  rounds to itself, and every number between 0 and a non-negative gross output rounds
  to a number in that range.
\<close>

lemma binade_unique:
  assumes "2 powi e \<le> \<bar>x\<bar>" and "e = 3020 \<or> \<bar>x\<bar> < 2 powi (e + 1)" and "- 1022 \<le> e" and "e \<le> 3020"
  shows "max (expo \<bar>x\<bar>) (- 1022) = e"
proof -
  define e' where "e' = max (expo \<bar>x\<bar>) (- 1022)"
  have u: "ulp x = 2 powi (e' - 52)" by (simp add: ulp_def e'_def)
  have range: "- 1022 \<le> e'" "e' \<le> 3020" using expo_range [of "\<bar>x\<bar>"] by (simp_all add: e'_def)
  have "\<not> e' < e"
  proof
    assume less: "e' < e"
    then have "e' < 3020" using assms(4) by linarith
    with e'_def have "\<bar>x\<bar> < 2 powi (e' + 1)" by (rule binade_upper)
    moreover have "(2::real) powi (e' + 1) \<le> 2 powi e"
      using less by (intro power_int_increasing) simp_all
    ultimately show False using assms(1) by linarith
  qed
  moreover have "\<not> e < e'"
  proof
    assume less: "e < e'"
    then have "- 1022 < e'" using assms(3) by linarith
    with u e'_def have "2 powi e' \<le> \<bar>x\<bar>" by (rule binade_lower)
    moreover have "e \<noteq> 3020" using less range by linarith
    then have "\<bar>x\<bar> < 2 powi (e + 1)" using assms(2) by simp
    moreover have "(2::real) powi (e + 1) \<le> 2 powi e'"
      using less by (intro power_int_increasing) simp_all
    ultimately show False by linarith
  qed
  ultimately show ?thesis unfolding e'_def by linarith
qed

lemma nearest_fixed:
  fixes k :: int
  assumes "x = of_int k * 2 powi (e - 52)" and "2 ^ 52 \<le> k" and "k < 2 ^ 53"
    and "- 1022 \<le> e" and "e \<le> 3020"
  shows "nearest x = x"
proof -
  have "(0::int) < 2 ^ 52" by simp
  then have k0: "0 < k" using assms(2) by linarith
  have xpos: "0 < x" unfolding assms(1) using k0 by simp
  have "(of_int (2 ^ 52) :: real) \<le> of_int k" using assms(2) by (simp only: of_int_le_iff)
  then have "2 ^ 52 * 2 powi (e - 52) \<le> x" unfolding assms(1) by (intro mult_right_mono) simp_all
  then have lo: "2 powi e \<le> \<bar>x\<bar>" using xpos unfolding two52 by simp
  have "(of_int k :: real) < of_int (2 ^ 53)" using assms(3) by (simp only: of_int_less_iff)
  then have "x < 2 ^ 53 * 2 powi (e - 52)" unfolding assms(1) by (intro mult_strict_right_mono) simp_all
  then have hi: "\<bar>x\<bar> < 2 powi (e + 1)" using xpos unfolding two53 by simp
  have "max (expo \<bar>x\<bar>) (- 1022) = e" using lo _ assms(4,5) by (rule binade_unique) (simp add: hi)
  then have u: "ulp x = 2 powi (e - 52)" by (simp add: ulp_def)
  have "x / ulp x = x / 2 powi (e - 52)" by (simp only: u)
  also have "\<dots> = of_int k" using assms(1) by simp
  finally have "x / ulp x = of_int k" .
  then have "rne (x / ulp x) = k" by (simp only: rne_of_int)
  then show ?thesis using xpos u assms(1) by (simp add: nearest_pos)
qed

lemma nearest_fixed_top:
  assumes "x = 2 powi (e + 1)" and "- 1022 \<le> e" and "e < 3020"
  shows "nearest x = x"
proof -
  have "x = of_int (2 ^ 52) * 2 powi ((e + 1) - 52)"
    unfolding assms(1) using two52 [of "e + 1"] by simp
  then show ?thesis using assms(2,3) by (intro nearest_fixed [of x "2 ^ 52" "e + 1"]) simp_all
qed

lemma nearest_idem_large:
  assumes "52 \<le> max (expo \<bar>z\<bar>) (- 1022)"
  shows "nearest (nearest z) = nearest z" and "\<exists>n. nearest z = of_int n"
proof -
  define e where "e = max (expo \<bar>z\<bar>) (- 1022)"
  define k where "k = rne (\<bar>z\<bar> / ulp z)"
  have u: "ulp z = 2 powi (e - 52)" by (simp add: ulp_def e_def)
  have e52: "52 \<le> e" using assms by (simp add: e_def)
  have range: "- 1022 \<le> e" "e \<le> 3020" using expo_range [of "\<bar>z\<bar>"] by (simp_all add: e_def)
  have "- 1022 < e" using e52 by linarith
  with u e_def have lo: "2 powi e \<le> \<bar>z\<bar>" by (rule binade_lower)
  then have "2 ^ 52 * ulp z \<le> \<bar>z\<bar>" unfolding u two52 .
  then have "2 ^ 52 \<le> \<bar>z\<bar> / ulp z" using ulp_pos [of z] by (simp add: pos_le_divide_eq)
  then have "rne (of_int (2 ^ 52)) \<le> rne (\<bar>z\<bar> / ulp z)" by (intro rne_mono) simp
  then have k52: "2 ^ 52 \<le> k" unfolding rne_of_int k_def .
  obtain j where j: "e - 52 = int j" using e52 by (metis diff_ge_0_iff_ge nonneg_int_cases)
  have uj: "ulp z = of_int (2 ^ j)" unfolding u j by simp
  have "(0::int) < 2 ^ 52" by simp
  then have k0: "0 \<le> k" using k52 by linarith
  have zne: "z \<noteq> 0"
  proof
    assume "z = 0"
    then have "2 powi e \<le> (0::real)" using lo by simp
    moreover have "(0::real) < 2 powi e" by simp
    ultimately show False by linarith
  qed
  have sg: "nearest z = sgn z * (of_int k * ulp z)" by (simp add: nearest_def k_def)
  show "\<exists>n. nearest z = of_int n"
  proof (cases "0 < z")
    case True
    then have "nearest z = of_int (k * 2 ^ j)" unfolding sg uj by simp
    then show ?thesis by blast
  next
    case False
    then have "z < 0" using zne by simp
    then have "nearest z = of_int (- (k * 2 ^ j))" unfolding sg uj by simp
    then show ?thesis by blast
  qed
  have fixed: "nearest (of_int k * ulp z) = of_int k * ulp z"
  proof (cases "k < 2 ^ 53")
    case True
    show ?thesis
      using u k52 True range by (intro nearest_fixed [of _ k e]) simp_all
  next
    case False
    then have big: "2 ^ 53 \<le> k" by simp
    have e3020: "e < 3020 \<or> e = 3020" using range by linarith
    then show ?thesis
    proof
      assume less: "e < 3020"
      with e_def have "\<bar>z\<bar> < 2 powi (e + 1)" by (rule binade_upper)
      then have "\<bar>z\<bar> \<le> 2 ^ 53 * ulp z" unfolding u two53 by simp
      then have "\<bar>z\<bar> / ulp z \<le> 2 ^ 53" using ulp_pos [of z] by (simp add: pos_divide_le_eq)
      then have "rne (\<bar>z\<bar> / ulp z) \<le> rne (of_int (2 ^ 53))" by (intro rne_mono) simp
      then have "k \<le> 2 ^ 53" unfolding rne_of_int k_def .
      then have "k = 2 ^ 53" using big by linarith
      then have "of_int k * ulp z = 2 ^ 53 * 2 powi (e - 52)" unfolding u by simp
      then have "of_int k * ulp z = 2 powi (e + 1)" unfolding two53 .
      then show ?thesis using range(1) less by (intro nearest_fixed_top) simp_all
    next
      assume top: "e = 3020"
      let ?x = "of_int k * ulp z"
      have "(of_int (2 ^ 52) :: real) \<le> of_int k" using k52 by (simp only: of_int_le_iff)
      then have "2 ^ 52 * 2 powi (e - 52) \<le> ?x" unfolding u by (intro mult_right_mono) simp_all
      then have "2 powi e \<le> ?x" unfolding two52 .
      moreover have x0: "0 \<le> ?x" using ulp_pos [of z] k0 by simp
      ultimately have "2 powi e \<le> \<bar>?x\<bar>" by simp
      then have "max (expo \<bar>?x\<bar>) (- 1022) = e" using top by (intro binade_unique) simp_all
      then have ux: "ulp ?x = ulp z" unfolding u by (simp add: ulp_def)
      have "?x / ulp ?x = of_int k" unfolding ux using ulp_pos [of z] by simp
      then have "rne (?x / ulp ?x) = k" by (simp only: rne_of_int)
      then show ?thesis using x0 ux by (simp add: nearest_pos)
    qed
  qed
  show "nearest (nearest z) = nearest z"
  proof (cases "0 < z")
    case True
    then show ?thesis unfolding sg using fixed by simp
  next
    case False
    then have "z < 0" using zne by simp
    then show ?thesis unfolding sg using fixed by (simp add: nearest_minus)
  qed
qed

lemma ceiling_nearest:
  shows "nearest (of_int \<lceil>nearest z\<rceil>) = of_int \<lceil>nearest z\<rceil>"
    and "\<bar>nearest z\<bar> < 2 ^ 1024 \<Longrightarrow> \<bar>of_int \<lceil>nearest z\<rceil> :: real\<bar> < 2 ^ 1024"
proof -
  define e where "e = max (expo \<bar>z\<bar>) (- 1022)"
  have both: "nearest (of_int \<lceil>nearest z\<rceil>) = of_int \<lceil>nearest z\<rceil>
      \<and> (\<bar>nearest z\<bar> < 2 ^ 1024 \<longrightarrow> \<bar>of_int \<lceil>nearest z\<rceil> :: real\<bar> < 2 ^ 1024)"
  proof (cases "52 \<le> e")
    case True
    then have l: "52 \<le> max (expo \<bar>z\<bar>) (- 1022)" by (simp add: e_def)
    obtain n where n: "nearest z = of_int n" using nearest_idem_large(2) [OF l] by blast
    have "nearest (nearest z) = nearest z" using l by (rule nearest_idem_large(1))
    then show ?thesis unfolding n by simp
  next
    case False
    then have "e < 3020" and e51: "e + 1 \<le> 52" by simp_all
    with e_def have "\<bar>z\<bar> < 2 powi (e + 1)" by (intro binade_upper)
    moreover have "(2::real) powi (e + 1) \<le> 2 powi 52"
      using e51 by (intro power_int_increasing) simp_all
    ultimately have "\<bar>z\<bar> \<le> 2 ^ 52" by simp
    then have "of_int (- (2 ^ 52)) \<le> z" and "z \<le> of_int (2 ^ 52)" by (simp_all add: abs_le_iff)
    moreover have "\<bar>- (2 ^ 52) :: int\<bar> < 2 ^ 53" and "\<bar>2 ^ 52 :: int\<bar> < 2 ^ 53" by simp_all
    ultimately have lo: "of_int (- (2 ^ 52)) \<le> nearest z" and hi: "nearest z \<le> of_int (2 ^ 52)"
      by (rule nearest_between)+
    have "\<lceil>nearest z\<rceil> \<le> 2 ^ 52" using hi by (simp only: ceiling_le_iff)
    moreover have "- (2 ^ 52) \<le> \<lceil>nearest z\<rceil>" using lo by (metis ceiling_mono ceiling_of_int)
    ultimately have b: "\<bar>\<lceil>nearest z\<rceil>\<bar> \<le> 2 ^ 52" by linarith
    then have "\<bar>\<lceil>nearest z\<rceil>\<bar> < 2 ^ 53" by simp
    then have "nearest (of_int \<lceil>nearest z\<rceil>) = of_int \<lceil>nearest z\<rceil>" by (rule nearest_of_int)
    moreover have "(of_int \<bar>\<lceil>nearest z\<rceil>\<bar> :: real) \<le> of_int (2 ^ 52)" using b by (simp only: of_int_le_iff)
    then have "\<bar>of_int \<lceil>nearest z\<rceil> :: real\<bar> \<le> 2 ^ 52" by simp
    moreover have "(2::real) ^ 52 < 2 ^ 1024" by (intro power_strict_increasing) simp_all
    ultimately show ?thesis by linarith
  qed
  show "nearest (of_int \<lceil>nearest z\<rceil>) = of_int \<lceil>nearest z\<rceil>" using both by blast
  show "\<bar>nearest z\<bar> < 2 ^ 1024 \<Longrightarrow> \<bar>of_int \<lceil>nearest z\<rceil> :: real\<bar> < 2 ^ 1024" using both by blast
qed

lemma round_double_FinD:
  assumes "round_double z = Fin d"
  shows "d = nearest z" and "\<bar>nearest z\<bar> < 2 ^ 1024"
  using assms by (simp_all add: round_double_def Let_def inf_of_def split: if_splits)

lemma Math_ceil_double:
  assumes "round_double z = Fin d"
  shows "round_double (of_int \<lceil>d\<rceil>) = Fin (of_int \<lceil>d\<rceil>)"
proof -
  note d = round_double_FinD [OF assms]
  have fixed: "nearest (of_int \<lceil>d\<rceil>) = of_int \<lceil>d\<rceil>" unfolding d(1) by (rule ceiling_nearest(1))
  have "\<bar>of_int \<lceil>d\<rceil> :: real\<bar> < 2 ^ 1024" unfolding d(1) using d(2) by (rule ceiling_nearest(2))
  then have "\<bar>nearest (of_int \<lceil>d\<rceil>)\<bar> < 2 ^ 1024" unfolding fixed .
  then have "round_double (of_int \<lceil>d\<rceil>) = Fin (nearest (of_int \<lceil>d\<rceil>))" by (rule round_double_Fin)
  then show ?thesis unfolding fixed .
qed

lemma add_Fin:
  assumes "add x y = Fin d"
  shows "\<exists>z. round_double z = Fin d"
  using assms by (cases x; cases y) auto

lemma gross_double:
  assumes "grossToAmount p t x = Fin g"
  shows "round_double g = Fin g"
proof -
  let ?s = "sub (toAmountInPool p t) (newToAmountInPool p t x)"
  have c: "Math_ceil ?s = Fin g" using assms by (simp add: grossToAmount_def)
  then obtain d where s: "?s = Fin d" and g: "g = of_int \<lceil>d\<rceil>" by (cases ?s) auto
  obtain z where "round_double z = Fin d" using s add_Fin unfolding sub_def by blast
  then show ?thesis unfolding g by (rule Math_ceil_double)
qed

lemma round_double_below:
  assumes "round_double g = Fin g" and "0 \<le> x" and "x \<le> g"
  shows "round_double x = Fin (nearest x)" and "0 \<le> nearest x" and "nearest x \<le> g"
proof -
  note g = round_double_FinD [OF assms(1)]
  show n0: "0 \<le> nearest x" using assms(2) by (rule nearest_nonneg)
  have "nearest x \<le> nearest g" using assms(3) by (rule nearest_mono)
  then show ng: "nearest x \<le> g" using g(1) by simp
  have "\<bar>nearest x\<bar> \<le> \<bar>nearest g\<bar>" using n0 ng g(1) by simp
  then have "\<bar>nearest x\<bar> < 2 ^ 1024" using g(2) by linarith
  then show "round_double x = Fin (nearest x)" by (rule round_double_Fin)
qed

lemma net_of_gross_double:
  assumes gross: "grossToAmount p t x = Fin g"
    and fee: "feeRatio p = Fin f"
    and "0 \<le> g" and "0 \<le> f" and "f \<le> 1"
  shows "sub (grossToAmount p t x) (fees p t x) = Fin (nearest (g - of_int \<lfloor>nearest (g * f)\<rfloor>))"
proof -
  have dg: "round_double g = Fin g" using gross by (rule gross_double)
  have "0 \<le> g * f" using assms(3,4) by simp
  moreover have "g * f \<le> g" using assms(3,5) by (simp add: mult_left_le)
  ultimately have m: "round_double (g * f) = Fin (nearest (g * f))"
    and m0: "0 \<le> nearest (g * f)" and mg: "nearest (g * f) \<le> g"
    using dg by (simp_all add: round_double_below)
  let ?fe = "of_int \<lfloor>nearest (g * f)\<rfloor> :: real"
  have "0 \<le> ?fe" using m0 by simp
  moreover have "?fe \<le> nearest (g * f)" by simp
  ultimately have "0 \<le> g - ?fe" "g - ?fe \<le> g" using mg by linarith+
  then have "round_double (g - ?fe) = Fin (nearest (g - ?fe))"
    using dg by (simp add: round_double_below)
  moreover have "fees p t x = Fin ?fe"
    unfolding fees_def gross fee by (simp only: mul.simps m Math_floor.simps)
  ultimately show ?thesis unfolding gross sub_def by simp
qed

section \<open>The swap output\<close>

text \<open>
  Claim C1 says that the net output is the formula of the specification computed
  exactly, with a real-valued division. The code computes in the 64-bit format: with
  100000000000 of A, 1000000000000 of B and fee ratio 1/4, swapping 1 of A returns 9,
  and the exact formula gives 8 (the product of the reserves is not a number of the
  format, and the rounded quotient moves the ceiling from 10 to 11).
\<close>

theorem calculateAmountInOtherToken_exact_formula_counterexample:
  "calculateAmountInOtherToken (testPool 100000000000 1000000000000 (1/4)) ''A'' (Fin 1) = Inr (Fin 9)
   \<and> spec_netOutput 100000000000 1000000000000 (1/4) 1 = 8"
  by (simp add: all_defs double_eval spec_netOutput_def spec_grossOutput_def)

text \<open>
  Claim C1, amended. When the input token is token A or token B of the pool, with the
  balance on the input side as \<open>fromReserve\<close> and the balance on the other side as
  \<open>toReserve\<close> (token B as input swaps the two), \<^verbatim>\<open>calculateAmountInOtherToken\<close> returns
  the net output of the eight steps of the specification, each product, sum, quotient
  and difference rounded to the 64-bit format. When the reserves and the input amount
  are natural numbers with \<open>fromReserve + inputAmount > 0\<close>, \<open>toReserve > 0\<close> and
  \<open>toReserve * (2 * fromReserve + inputAmount) < 2 ^ 53\<close>, the rounding does not show in the
  gross output: it is the ceiling of the exact \<open>toReserve - invariant / newFromReserve\<close>.
\<close>

theorem calculateAmountInOtherToken_rounded_formula:
  fixes A B X :: nat
  assumes "inputToken = mint (tokenA p) \<or> inputToken = mint (tokenB p)"
    and "fromReserve = (if inputToken = mint (tokenB p) then balance (tokenB p) else balance (tokenA p))"
    and "toReserve = (if inputToken = mint (tokenB p) then balance (tokenA p) else balance (tokenB p))"
  shows "calculateAmountInOtherToken p inputToken inputAmount =
           Inr (spec_netOutput_rounded fromReserve toReserve (feeRatio p) inputAmount)
       \<and> (fromReserve = Fin (real A) \<and> toReserve = Fin (real B) \<and> inputAmount = Fin (real X)
            \<and> 0 < A + X \<and> 0 < B \<and> B * (2 * A + X) < 2 ^ 53
          \<longrightarrow> grossToAmount p inputToken inputAmount = Fin (spec_grossOutput (real A) (real B) (real X)))"
proof -
  have fr: "fromAmountInPool p inputToken = fromReserve"
    using assms(2) by (auto simp add: fromAmountInPool_def isReverse_def)
  have to: "toAmountInPool p inputToken = toReserve"
    using assms(3) by (auto simp add: toAmountInPool_def isReverse_def)
  have "calculateAmountInOtherToken p inputToken inputAmount =
      Inr (spec_netOutput_rounded fromReserve toReserve (feeRatio p) inputAmount)"
    using calculate_rounded [OF assms(1), of inputAmount] fr to by simp
  moreover have "grossToAmount p inputToken inputAmount = Fin (spec_grossOutput (real A) (real B) (real X))"
    if "fromReserve = Fin (real A)" "toReserve = Fin (real B)" "inputAmount = Fin (real X)"
      "0 < A + X" "0 < B" "B * (2 * A + X) < 2 ^ 53"
    using grossToAmount_exact [of p inputToken A B X] fr to that by simp
  ultimately show ?thesis by blast
qed

text \<open>The theorem of claim C1 at the first swap of the integration test.\<close>

theorem calculateAmountInOtherToken_rounded_formula_witness:
  "calculateAmountInOtherToken (testPool 1000 2000 (1/4)) ''A'' (Fin 5) =
     Inr (spec_netOutput_rounded (Fin 1000) (Fin 2000) (Fin (1/4)) (Fin 5))
   \<and> grossToAmount (testPool 1000 2000 (1/4)) ''A'' (Fin 5) = Fin (spec_grossOutput 1000 2000 5)"
proof -
  let ?p = "testPool 1000 2000 (1/4)"
  have v: "''A'' = mint (tokenA ?p) \<or> ''A'' = mint (tokenB ?p)"
    by (simp add: testPool_def)
  have fr: "Fin 1000 = (if ''A'' = mint (tokenB ?p) then balance (tokenB ?p) else balance (tokenA ?p))"
    by (simp add: testPool_def)
  have to: "Fin 2000 = (if ''A'' = mint (tokenB ?p) then balance (tokenA ?p) else balance (tokenB ?p))"
    by (simp add: testPool_def)
  have prem: "Fin 1000 = Fin (real (1000::nat)) \<and> Fin 2000 = Fin (real (2000::nat))
      \<and> Fin 5 = Fin (real (5::nat))
      \<and> (0::nat) < 1000 + 5 \<and> (0::nat) < 2000 \<and> (2000::nat) * (2 * 1000 + 5) < 2 ^ 53"
    by simp
  have fee: "feeRatio ?p = Fin (1/4)" by (simp add: testPool_def)
  have eq: "spec_grossOutput (real (1000::nat)) (real (2000::nat)) (real (5::nat)) = spec_grossOutput 1000 2000 5"
    by simp
  show ?thesis
    using calculateAmountInOtherToken_rounded_formula [OF v fr to, of "Fin 5" 1000 2000 5] prem unfolding fee eq by blast
qed

text \<open>
  Claim C3. In the pool with 1000 of A, 2000 of B and fee ratio 1/4, swapping 5 of A
  returns 8, with the invariant 2000000, the gross output 10 and the fee 2. In the pool
  with 1005 of A, 1992 of B and fee ratio 1/4, swapping 5 of B returns 3.
\<close>

theorem swap_scenarios:
  "calculateAmountInOtherToken (testPool 1000 2000 (1/4)) ''A'' (Fin 5) = Inr (Fin 8)
   \<and> invariant (testPool 1000 2000 (1/4)) ''A'' = Fin 2000000
   \<and> grossToAmount (testPool 1000 2000 (1/4)) ''A'' (Fin 5) = Fin 10
   \<and> fees (testPool 1000 2000 (1/4)) ''A'' (Fin 5) = Fin 2
   \<and> calculateAmountInOtherToken (testPool 1005 1992 (1/4)) ''B'' (Fin 5) = Inr (Fin 3)"
  by (simp add: all_defs double_eval)

text \<open>
  Claim C6 says that the net output never rises with the fee ratio. With
  5574712384923873 of A and 7906562538550329 of B, for the input 0 of A, the rounded
  quotient is one more than the B reserve, the gross output is \<open>-1\<close>, and the result is
  \<open>-1\<close> at fee ratio 0 and 0 at fee ratio 1/2.
\<close>

theorem fee_monotonicity_counterexample:
  "calculateAmountInOtherToken (testPool 5574712384923873 7906562538550329 0) ''A'' (Fin 0) = Inr (Fin (- 1))
   \<and> calculateAmountInOtherToken (testPool 5574712384923873 7906562538550329 (1/2)) ''A'' (Fin 0) = Inr (Fin 0)
   \<and> (0::real) \<le> 1 / 2 \<and> (- 1 :: real) < 0"
  by (simp add: all_defs double_eval)

text \<open>
  Claim C6, amended. For a fixed pool, a fixed input token of the pool and a fixed
  input amount for which the gross output is a number that is not negative: for fee
  ratios \<open>0 \<le> f1 \<le> f2 < 1\<close>, the net output at fee ratio \<open>f2\<close> is at most the net output
  at fee ratio \<open>f1\<close>.
\<close>

theorem fee_monotonicity:
  assumes "inputToken = mint (tokenA p) \<or> inputToken = mint (tokenB p)"
    and "grossToAmount p inputToken inputAmount = Fin grossOutput"
    and "0 \<le> grossOutput"
    and "0 \<le> f1" and "f1 \<le> f2" and "f2 < 1"
  shows "\<exists>n1 n2.
           calculateAmountInOtherToken (p\<lparr>feeRatio := Fin f1\<rparr>) inputToken inputAmount = Inr (Fin n1)
         \<and> calculateAmountInOtherToken (p\<lparr>feeRatio := Fin f2\<rparr>) inputToken inputAmount = Inr (Fin n2)
         \<and> n2 \<le> n1"
proof -
  let ?g = grossOutput
  let ?net = "\<lambda>f. nearest (?g - of_int \<lfloor>nearest (?g * f)\<rfloor>)"
  have calc: "calculateAmountInOtherToken (p\<lparr>feeRatio := Fin f\<rparr>) inputToken inputAmount =
      Inr (Fin (?net f))" if "0 \<le> f" "f \<le> 1" for f
  proof -
    have gross: "grossToAmount (p\<lparr>feeRatio := Fin f\<rparr>) inputToken inputAmount = Fin ?g"
      using assms(2) by (simp add: grossToAmount_feeRatio_update)
    have fee: "feeRatio (p\<lparr>feeRatio := Fin f\<rparr>) = Fin f" by simp
    show ?thesis
      unfolding calculateAmountInOtherToken_def
      using net_of_gross_double [OF gross fee assms(3) that] assms(1) by simp
  qed
  have "?g * f1 \<le> ?g * f2" using assms(3,5) by (intro mult_left_mono) simp_all
  then have "nearest (?g * f1) \<le> nearest (?g * f2)" by (rule nearest_mono)
  then have "\<lfloor>nearest (?g * f1)\<rfloor> \<le> \<lfloor>nearest (?g * f2)\<rfloor>" by (rule floor_mono)
  then have "?g - of_int \<lfloor>nearest (?g * f2)\<rfloor> \<le> ?g - of_int \<lfloor>nearest (?g * f1)\<rfloor>" by simp
  then have "?net f2 \<le> ?net f1" by (rule nearest_mono)
  moreover have "0 \<le> f2" "f1 \<le> 1" "f2 \<le> 1" using assms(4,5,6) by simp_all
  ultimately show ?thesis using calc [of f1] calc [of f2] assms(4) by blast
qed

text \<open>The theorem of claim C6 at the fee ratios 1/4 and 1/2.\<close>

theorem fee_monotonicity_witness:
  "grossToAmount (testPool 1000 2000 0) ''A'' (Fin 5) = Fin 10
   \<and> (\<exists>n1 n2.
      calculateAmountInOtherToken (testPool 1000 2000 (1/4)) ''A'' (Fin 5) = Inr (Fin n1)
    \<and> calculateAmountInOtherToken (testPool 1000 2000 (1/2)) ''A'' (Fin 5) = Inr (Fin n2)
    \<and> n2 \<le> n1)"
proof -
  have g: "grossToAmount (testPool 1000 2000 0) ''A'' (Fin 5) = Fin 10"
    by (simp add: all_defs double_eval)
  show ?thesis
    using g fee_monotonicity [of "''A''" "testPool 1000 2000 0" "Fin 5" 10 "1/4" "1/2"]
    by (simp add: testPool_def)
qed

section \<open>Failures\<close>

text \<open>
  Claim C7. When the input token is neither token A nor token B of the pool, the
  \<^verbatim>\<open>assert\<close> fails for every input amount, 0 included, and no number is returned.
\<close>

theorem invalid_asset_fails:
  assumes "inputToken \<noteq> mint (tokenA p)" and "inputToken \<noteq> mint (tokenB p)"
  shows "calculateAmountInOtherToken p inputToken inputAmount =
           Inl (AssertionError ''Input token must be either pool token A or B'')"
  using assms by (simp add: calculateAmountInOtherToken_def)

text \<open>The theorem of claim C7 at a token \<open>''C''\<close> and the amount 0.\<close>

theorem invalid_asset_fails_witness:
  "calculateAmountInOtherToken (testPool 1000 2000 (1/4)) ''C'' (Fin 0) =
     Inl (AssertionError ''Input token must be either pool token A or B'')"
  using invalid_asset_fails [of "''C''" "testPool 1000 2000 (1/4)" "Fin 0"]
  by (simp add: testPool_def)

text \<open>
  Claim C2 says that a swap from a side whose balance is zero fails with an error. The
  code has no such check: with 0 of A and 100 of B at fee ratio 1/4, swapping 5 of A
  returns the number 75.
\<close>

theorem calculateAmountInOtherToken_empty_side_counterexample:
  "fromAmountInPool (testPool 0 100 (1/4)) ''A'' = Fin 0
   \<and> calculateAmountInOtherToken (testPool 0 100 (1/4)) ''A'' (Fin 5) = Inr (Fin 75)"
  by (simp add: all_defs double_eval)

text \<open>
  Claim C2, amended. A swap from a side whose balance is zero raises no error. For a
  positive input amount the new balance of the output side is \<open>0 / inputAmount = 0\<close>, so
  the whole output reserve, rounded up, is the gross output, and the result is that
  amount less the fee on it, the product and the difference rounded to the format. For
  the input amount 0 the division is \<open>0 / 0\<close> and the result is \<open>NaN\<close>. The output reserve
  and the input amount are numbers of the format.
\<close>

theorem calculateAmountInOtherToken_empty_side:
  assumes "inputToken = mint (tokenA p) \<or> inputToken = mint (tokenB p)"
    and "fromAmountInPool p inputToken = Fin 0"
    and "toAmountInPool p inputToken = Fin toReserve"
    and "round_double toReserve = Fin toReserve"
    and "round_double inputAmount = Fin inputAmount"
    and "0 \<le> inputAmount"
  shows "calculateAmountInOtherToken p inputToken (Fin inputAmount) =
           (if 0 < inputAmount
            then Inr (sub (Math_ceil (Fin toReserve))
                          (Math_floor (mul (Math_ceil (Fin toReserve)) (feeRatio p))))
            else Inr NaN)"
  using assms
  by (simp add: calculateAmountInOtherToken_def fees_def swap_defs round_double_0)

text \<open>The theorem of claim C2 at the amounts 5 and 0.\<close>

theorem calculateAmountInOtherToken_empty_side_witness:
  "calculateAmountInOtherToken (testPool 0 100 (1/4)) ''A'' (Fin 5) =
      Inr (sub (Math_ceil (Fin 100)) (Math_floor (mul (Math_ceil (Fin 100)) (Fin (1/4)))))
   \<and> calculateAmountInOtherToken (testPool 0 100 (1/4)) ''A'' (Fin 0) = Inr NaN"
proof -
  have t: "round_double 100 = Fin 100" and x: "round_double 5 = Fin 5" "round_double 0 = Fin 0"
    by (simp_all add: double_eval)
  show ?thesis
    using calculateAmountInOtherToken_empty_side [of "''A''" "testPool 0 100 (1/4)" 100 5] calculateAmountInOtherToken_empty_side [of "''A''" "testPool 0 100 (1/4)" 100 0] t x
    by (simp add: testPool_def fromAmountInPool_def toAmountInPool_def isReverse_def)
qed

section \<open>The constant product and the round trip\<close>

text \<open>
  Claim C4 says that \<open>(reserveA + x) * (reserveB - grossOutput)\<close> is within 1 of
  \<open>reserveA * reserveB\<close>. In the pool with 1000 of A and 2000 of B, for the input 5 of
  A, the gross output is 10 and the two products differ by 50.
\<close>

theorem product_after_swap_bounds_counterexample:
  "grossToAmount (testPool 1000 2000 (1/4)) ''A'' (Fin 5) = Fin 10
   \<and> \<bar>(1000 + 5) * (2000 - 10) - 1000 * 2000\<bar> = (50::real)"
  by (simp add: all_defs double_eval)

text \<open>
  Claim C4, amended. For a pool of two distinct tokens whose balances are positive
  natural numbers, a fee ratio in \<open>[0, 1]\<close> and an input of a natural number \<open>x\<close> of token
  A, with \<open>reserveB * (2 * reserveA + x) < 2 ^ 53\<close>: the product
  \<open>(reserveA + x) * (reserveB - grossOutput)\<close> is at most \<open>reserveA * reserveB\<close> and
  falls short of it by less than \<open>reserveA + x\<close> (the ceiling moves the B reserve by less
  than one unit, and the product by less than one unit times the new A reserve); and
  the net output is at most the gross output.
\<close>

theorem product_after_swap_bounds:
  fixes A B X :: nat
  assumes "mint (tokenA p) \<noteq> mint (tokenB p)"
    and "balance (tokenA p) = Fin (real A)" and "0 < A"
    and "balance (tokenB p) = Fin (real B)" and "0 < B"
    and "feeRatio p = Fin f" and "0 \<le> f" and "f \<le> 1"
    and "B * (2 * A + X) < 2 ^ 53"
  shows "\<exists>grossOutput netOutput.
           grossToAmount p (mint (tokenA p)) (Fin (real X)) = Fin grossOutput
         \<and> calculateTokenBAmount p (Fin (real X)) = Inr (Fin netOutput)
         \<and> (real A + real X) * (real B - grossOutput) \<le> real A * real B
         \<and> real A * real B - (real A + real X) < (real A + real X) * (real B - grossOutput)
         \<and> netOutput \<le> grossOutput"
proof -
  let ?t = "mint (tokenA p)"
  define g where "g = \<lceil>real B - real A * real B / (real A + real X)\<rceil>"
  define fe where "fe = \<lfloor>nearest (of_int g * f)\<rfloor>"
  have fr: "fromAmountInPool p ?t = Fin (real A)" and to: "toAmountInPool p ?t = Fin (real B)"
    using assms(1,2,4) by (simp_all add: forward_amounts)
  have AX: "0 < A + X" using assms(3) by simp
  note ex = swap_exact [OF fr to assms(6) AX assms(5,9,7,8), folded g_def fe_def]
  have pos: "0 < real A + real X" using assms(3) by simp
  have n: "calculateTokenBAmount p (Fin (real X)) = Inr (Fin (of_int (g - fe)))"
    unfolding calculateTokenBAmount_def calculateAmountInOtherToken_def using ex(6) by simp
  have le: "(of_int (g - fe) :: real) \<le> of_int g" using ex(7) by simp
  have b1: "(real A + real X) * (real B - of_int g) \<le> real A * real B"
    using spec_gross_bounds(1) [OF pos, of "real B"] unfolding ex(2) .
  have b2: "real A * real B - (real A + real X) < (real A + real X) * (real B - of_int g)"
    using spec_gross_bounds(2) [OF pos, of "real B"] unfolding ex(2) .
  show ?thesis using ex(1) n b1 b2 le by blast
qed

text \<open>The theorem of claim C4 at the first swap of the integration test.\<close>

theorem product_after_swap_bounds_witness:
  "\<exists>grossOutput netOutput.
      grossToAmount (testPool 1000 2000 (1/4)) ''A'' (Fin 5) = Fin grossOutput
    \<and> calculateTokenBAmount (testPool 1000 2000 (1/4)) (Fin 5) = Inr (Fin netOutput)
    \<and> (1000 + 5) * (2000 - grossOutput) \<le> 1000 * 2000
    \<and> 1000 * 2000 - (1000 + 5) < (1000 + 5) * (2000 - grossOutput)
    \<and> netOutput \<le> grossOutput"
  using product_after_swap_bounds [of "testPool 1000 2000 (1/4)" 1000 2000 "1/4" 5]
  by (simp add: testPool_def)

text \<open>
  Claim C5 says that a swap of A for B followed by the swap of the B received back for
  A never returns more than the A put in. In the pool with 1000 of A, 2000 of B and fee
  ratio 1/4, 1 of A buys 2 of B (the gross output 1.998 is rounded up and the fee on it
  is rounded down to 0), and in the pool with 1001 of A and 1998 of B those 2 of B buy
  2 of A.
\<close>

theorem round_trip_bound_counterexample:
  "calculateAmountInOtherToken (testPool 1000 2000 (1/4)) ''A'' (Fin 1) = Inr (Fin 2)
   \<and> calculateAmountInOtherToken (testPool (1000 + 1) (2000 - 2) (1/4)) ''B'' (Fin 2) = Inr (Fin 2)
   \<and> (1::real) < 2"
  by (simp add: all_defs double_eval)

text \<open>
  Claim C5, amended. For a pool of two distinct tokens whose balances are positive
  natural numbers, a fee ratio in \<open>[0, 1)\<close> and an input of a natural number \<open>x\<close> of token
  A, with \<open>2 * reserveB * (reserveA + x) < 2 ^ 53\<close>: the swap returns an amount \<open>b\<close> of B,
  and swapping \<open>b\<close> of B back in the pool with the balances \<open>reserveA + x\<close> and
  \<open>reserveB - b\<close> returns an amount of A below \<open>x + (reserveA + x) / reserveB + 1\<close>. The
  two ceilings can make the round trip return more than \<open>x\<close>, by less than that margin.
\<close>

theorem round_trip_bound:
  fixes A B X :: nat
  assumes "mint (tokenA p) \<noteq> mint (tokenB p)"
    and "balance (tokenA p) = Fin (real A)" and "0 < A"
    and "balance (tokenB p) = Fin (real B)" and "0 < B"
    and "feeRatio p = Fin f" and "0 \<le> f" and "f < 1"
    and "2 * B * (A + X) < 2 ^ 53"
  shows "\<exists>b r.
           calculateTokenBAmount p (Fin (real X)) = Inr (Fin b)
         \<and> calculateTokenAAmount
              (p\<lparr>tokenA := (tokenA p)\<lparr>balance := Fin (real A + real X)\<rparr>,
                 tokenB := (tokenB p)\<lparr>balance := Fin (real B - b)\<rparr>\<rparr>) (Fin b) = Inr (Fin r)
         \<and> r < real X + (real A + real X) / real B + 1"
proof -
  let ?t = "mint (tokenA p)"
  define g1 where "g1 = \<lceil>real B - real A * real B / (real A + real X)\<rceil>"
  define f1 where "f1 = \<lfloor>nearest (of_int g1 * f)\<rfloor>"
  define n where "n = g1 - f1"
  have f_le: "f \<le> 1" using assms(8) by simp
  have fr: "fromAmountInPool p ?t = Fin (real A)" and to: "toAmountInPool p ?t = Fin (real B)"
    using assms(1,2,4) by (simp_all add: forward_amounts)
  have AX: "0 < A + X" using assms(3) by simp
  have "B * (2 * A + X) \<le> 2 * B * (A + X)" by (simp add: algebra_simps)
  then have bound1: "B * (2 * A + X) < 2 ^ 53" using assms(9) by linarith
  note ex = swap_exact [OF fr to assms(6) AX assms(5) bound1 assms(7) f_le, folded g1_def f1_def]
  have first: "calculateTokenBAmount p (Fin (real X)) = Inr (Fin (of_int n))"
    unfolding calculateTokenBAmount_def calculateAmountInOtherToken_def n_def using ex(6) by simp
  have n0: "0 \<le> n" and ng: "n \<le> g1" and nB: "n \<le> int B"
    using ex(3,4,7,8) by (simp_all add: n_def)
  define A' where "A' = nat (int B - n)"
  define X' where "X' = nat n"
  have rA': "real A' = real B - of_int n" using nB by (simp add: A'_def)
  have rX': "real X' = of_int n" using n0 by (simp add: X'_def)
  have sumB: "A' + X' = B" using n0 nB by (simp add: A'_def X'_def)
  let ?p' = "p\<lparr>tokenA := (tokenA p)\<lparr>balance := Fin (real A + real X)\<rparr>,
               tokenB := (tokenB p)\<lparr>balance := Fin (real B - of_int n)\<rparr>\<rparr>"
  let ?t' = "mint (tokenB ?p')"
  have fr': "fromAmountInPool ?p' ?t' = Fin (real A')"
    by (simp add: fromAmountInPool_def isReverse_def rA')
  have to': "toAmountInPool ?p' ?t' = Fin (real (A + X))"
    by (simp add: toAmountInPool_def isReverse_def)
  have fee': "feeRatio ?p' = Fin f" using assms(6) by simp
  have pos': "0 < A' + X'" using sumB assms(5) by simp
  have "2 * A' + X' \<le> 2 * B" using sumB by linarith
  then have "(A + X) * (2 * A' + X') \<le> (A + X) * (2 * B)" by (rule mult_le_mono2)
  also have "\<dots> = 2 * B * (A + X)" by (simp add: algebra_simps)
  finally have bound2: "(A + X) * (2 * A' + X') < 2 ^ 53" using assms(9) by linarith
  define g2 where "g2 = \<lceil>real (A + X) - real A' * real (A + X) / (real A' + real X')\<rceil>"
  define f2 where "f2 = \<lfloor>nearest (of_int g2 * f)\<rfloor>"
  note ex' = swap_exact [OF fr' to' fee' pos' AX bound2 assms(7) f_le, folded g2_def f2_def]
  have second: "calculateTokenAAmount ?p' (Fin (of_int n)) = Inr (Fin (of_int (g2 - f2)))"
    unfolding calculateTokenAAmount_def calculateAmountInOtherToken_def
    using ex'(6) rX' by simp
  have "of_int n \<le> spec_grossOutput (real A) (real B) (real X)"
    unfolding ex(2) using ng by simp
  then have "spec_grossOutput (real B - of_int n) (real A + real X) (of_int n)
      < real X + (real A + real X) / real B + 1"
    using assms(3,5) n0 by (intro spec_round_trip) simp_all
  moreover have "spec_grossOutput (real B - of_int n) (real A + real X) (of_int n) = of_int g2"
    using ex'(2) by (simp add: rA' rX')
  moreover have "(of_int (g2 - f2) :: real) \<le> of_int g2" using ex'(7) by simp
  ultimately have "(of_int (g2 - f2) :: real) < real X + (real A + real X) / real B + 1"
    by linarith
  then show ?thesis using first second by blast
qed

text \<open>The theorem of claim C5 at the input 1 of A.\<close>

theorem round_trip_bound_witness:
  "\<exists>b r.
      calculateTokenBAmount (testPool 1000 2000 (1/4)) (Fin 1) = Inr (Fin b)
    \<and> calculateTokenAAmount (testPool (1000 + 1) (2000 - b) (1/4)) (Fin b) = Inr (Fin r)
    \<and> r < 1 + (1000 + 1) / 2000 + 1"
  using round_trip_bound [of "testPool 1000 2000 (1/4)" 1000 2000 "1/4" 1]
  by (simp add: testPool_def)

section \<open>The rate and the values of pool tokens\<close>

text \<open>
  Claim C8. \<^verbatim>\<open>simpleRate\<close> returns the balance of B over the balance of A when the
  balance of A is positive, the quotient being the number of the format nearest to
  the exact one, and 0 when the balance of A is 0.
\<close>

theorem simpleRate_value:
  assumes "balance (tokenA p) = Fin reserveA" and "balance (tokenB p) = Fin reserveB"
  shows "(0 < reserveA \<longrightarrow> simpleRate p = round_double (reserveB / reserveA))
       \<and> (reserveA = 0 \<longrightarrow> simpleRate p = Fin 0)"
  using assms by (simp add: simpleRate_def)

text \<open>The theorem of claim C8 at a positive and at a zero balance of A.\<close>

theorem simpleRate_value_witness:
  "simpleRate (testPool 1000 2000 (1/4)) = Fin 2 \<and> simpleRate (testPool 0 2000 (1/4)) = Fin 0"
proof -
  have "round_double (2000 / 1000) = Fin 2" by (simp add: double_eval)
  then show ?thesis
    using simpleRate_value [of "testPool 1000 2000 (1/4)" 1000 2000] simpleRate_value [of "testPool 0 2000 (1/4)" 0 2000]
    by (simp add: testPool_def)
qed

text \<open>
  Claim C9. \<^verbatim>\<open>getPoolTokenValueOfTokenBAmount\<close> is the composition of
  \<^verbatim>\<open>getPoolTokenValueOfTokenAAmount\<close> with \<^verbatim>\<open>getTokenAValueOfPoolTokenAmount\<close>; it is
  the identity, whatever the pool, and so is each of the two.
\<close>

theorem pool_token_values_identity:
  "getPoolTokenValueOfTokenBAmount p n =
     getPoolTokenValueOfTokenAAmount p (getTokenAValueOfPoolTokenAmount p n)
   \<and> getPoolTokenValueOfTokenBAmount p n = n
   \<and> getTokenAValueOfPoolTokenAmount p n = n
   \<and> getPoolTokenValueOfTokenAAmount p n = n"
  by (simp add: getPoolTokenValueOfTokenBAmount_def getTokenAValueOfPoolTokenAmount_def
      getPoolTokenValueOfTokenAAmount_def)

section \<open>Serialization round trip\<close>

text \<open>
  Claim C10. \<^verbatim>\<open>Pool.from\<close> after \<^verbatim>\<open>serialize\<close> gives back every field of the pool:
  the address, the two token accounts, the pool token, the program id, the nonce and
  the fee ratio. The conversions of the public keys, the token accounts and the tokens
  are the ones modelled from the specification.
\<close>

theorem serialize_round_trip:
  fixes p :: "(PublicKey, 'tok) Pool"
  shows "(let q = Pool_from new_PublicKey TokenAccount_from Token_from
                    (serialize toBase58 TokenAccount_serialize Token_serialize p)
          in address q = address p \<and> tokenA q = tokenA p \<and> tokenB q = tokenB p
           \<and> poolToken q = poolToken p \<and> programId q = programId p
           \<and> nonce q = nonce p \<and> feeRatio q = feeRatio p)"
  by (simp add: Let_def Pool_from_def serialize_def new_PublicKey_def TokenAccount_from_def
      TokenAccount_serialize_def Token_from_def Token_serialize_def)

end
